theory Spec2Isabelle
  imports Complex_Main
begin

section \<open>RotorSE: components of \<open>src/rotorse/rotor.py\<close>\<close>

text \<open>
  The components of \<open>rotor.py\<close> are OpenMDAO components: \<open>solve_nonlinear\<close> reads the
  dictionary \<open>params\<close> and writes the dictionary \<open>unknowns\<close>. Each component is modelled
  as a function from the parameters it reads to the unknowns it writes.

  Conventions of the model.
  \<^item> A Python float is a \<open>real\<close>: rounding is not modelled.
  \<^item> A numpy array of floats is a \<open>real list\<close>, and an index is a \<open>nat\<close> (the indices
    of this code are loop counters and sector numbers, counted from 0).
  \<^item> The unknowns a component writes are a record whose fields carry the prefix \<open>u_\<close>
    (\<open>unknowns['Rhub']\<close> is \<open>u_Rhub\<close>); parameters and local variables keep the
    source's names, and where the parameters are given as a record its fields carry the
    prefix \<open>p_\<close>.
  \<^item> Every exception of the source is a value of \<open>error\<close>, and a function that can raise
    returns \<open>error + 'a\<close>.
  \<^item> A numpy division by zero does not raise: it yields \<open>inf\<close> or \<open>nan\<close> with a warning
    and the program goes on. No real number stands for \<open>inf\<close> or \<open>nan\<close>, so the model
    stops there with \<open>FloatingPointError\<close> (what numpy raises under
    \<open>seterr(all='raise')\<close>). A theorem about a run that returns \<open>Inr\<close> is therefore a
    theorem about a run all of whose floats are finite.
\<close>

subsection \<open>Errors, indexing, division\<close>

datatype error = IndexError | ValueError | UnboundLocalError | FloatingPointError

definition getitem :: "'a list \<Rightarrow> nat \<Rightarrow> error + 'a" where
  "getitem xs i = (if i < length xs then Inr (xs ! i) else Inl IndexError)"

definition fdiv :: "real \<Rightarrow> real \<Rightarrow> error + real" where
  "fdiv a b = (if b = 0 then Inl FloatingPointError else Inr (a / b))"

text \<open>
  Sequencing of two steps, the first of which can raise. The type of the exception is
  left open: it is \<open>error\<close>, or \<open>error\<close> with the heap at the time where the code writes
  into arrays in place.
\<close>

definition and_then :: "'e + 'a \<Rightarrow> ('a \<Rightarrow> 'e + 'b) \<Rightarrow> 'e + 'b" where
  "and_then m f = (case m of Inl e \<Rightarrow> Inl e | Inr v \<Rightarrow> f v)"

text \<open>
  A loop \<open>for x in xs\<close> that computes one output per element: the outputs in order, or the
  first exception.
\<close>

fun for_collect :: "('a \<Rightarrow> 'e + 'b) \<Rightarrow> 'a list \<Rightarrow> 'e + 'b list" where
  "for_collect f [] = Inr []"
| "for_collect f (x # xs) =
     and_then (f x) (\<lambda>y. and_then (for_collect f xs) (\<lambda>ys. Inr (y # ys)))"

text \<open>
  A loop \<open>for x in xs\<close> whose body updates a state: the final state, or the first
  exception.
\<close>

fun for_each :: "('a \<Rightarrow> 's \<Rightarrow> 'e + 's) \<Rightarrow> 'a list \<Rightarrow> 's \<Rightarrow> 'e + 's" where
  "for_each body [] s = Inr s"
| "for_each body (x # xs) s = and_then (body x s) (for_each body xs)"

subsection \<open>Environment models: \<open>TurbineClass\<close>, \<open>GustETM\<close>, \<open>ExtremeLoads\<close>\<close>

record TurbineClass_unknowns =
  u_V_mean :: real
  u_V_extreme :: real
  u_V_extreme_full :: "real \<times> real"

text \<open>
  \<open>TurbineClass.solve_nonlinear\<close>. The class is compared with string literals; a class
  that matches no branch leaves \<open>Vref\<close> unbound, and its first use raises.
\<close>

definition TurbineClass_Vref :: "string \<Rightarrow> error + real" where
  "TurbineClass_Vref turbine_class =
     (if turbine_class = ''I'' then Inr 50.0
      else if turbine_class = ''II'' then Inr 42.5
      else if turbine_class = ''III'' then Inr 37.5
      else if turbine_class = ''IV'' then Inr 30.0
      else Inl UnboundLocalError)"

definition TurbineClass_solve_nonlinear :: "string \<Rightarrow> error + TurbineClass_unknowns" where
  "TurbineClass_solve_nonlinear turbine_class =
     and_then (TurbineClass_Vref turbine_class) (\<lambda>Vref.
       Inr \<lparr>u_V_mean = 0.2 * Vref, u_V_extreme = 1.4 * Vref,
            u_V_extreme_full = (1.4 * Vref, 1.4 * Vref)\<rparr>)"

text \<open>\<open>GustETM.solve_nonlinear\<close>; the unknown written is \<open>V_gust\<close>.\<close>

definition GustETM_Iref :: "string \<Rightarrow> error + real" where
  "GustETM_Iref turbulence_class =
     (if turbulence_class = ''A'' then Inr 0.16
      else if turbulence_class = ''B'' then Inr 0.14
      else if turbulence_class = ''C'' then Inr 0.12
      else Inl UnboundLocalError)"

definition GustETM_solve_nonlinear :: "real \<Rightarrow> real \<Rightarrow> string \<Rightarrow> real \<Rightarrow> error + real" where
  "GustETM_solve_nonlinear V_mean V_hub turbulence_class std =
     and_then (GustETM_Iref turbulence_class) (\<lambda>Iref.
       let c = 2.0;
           sigma = c * Iref * (0.072 * (V_mean / c + 3) * (V_hub / c - 4) + 10);
           V_gust = V_hub + std * sigma
       in Inr V_gust)"

record ExtremeLoads_unknowns =
  u_T_extreme :: real
  u_Q_extreme :: real

text \<open>
  \<open>ExtremeLoads.solve_nonlinear\<close>. \<open>T\<close> and \<open>Q\<close> are arrays of shape \<open>(2,)\<close>, modelled as
  pairs; \<open>n = float(params['nBlades'])\<close>. The torque average is stored in the attribute
  \<open>self.Q_extreme\<close>, and the unknown \<open>Q_extreme\<close> is assigned the literal \<open>0.0\<close>.
\<close>

definition ExtremeLoads_solve_nonlinear ::
  "real \<times> real \<Rightarrow> real \<times> real \<Rightarrow> int \<Rightarrow> error + ExtremeLoads_unknowns" where
  "ExtremeLoads_solve_nonlinear T Q nBlades =
     (let n = real_of_int nBlades in
      and_then (fdiv (fst T + snd T * (n - 1)) n) (\<lambda>self_T_extreme.
      and_then (fdiv (fst Q + snd Q * (n - 1)) n) (\<lambda>self_Q_extreme.
        Inr \<lparr>u_T_extreme = self_T_extreme, u_Q_extreme = 0.0\<rparr>)))"

subsection \<open>Grid mapper: \<open>GridSetup\<close>, \<open>RGrid\<close>\<close>

text \<open>\<open>r_aug = np.concatenate([[0.0], r_aero, [1.0]])\<close>.\<close>

definition augment :: "real list \<Rightarrow> real list" where
  "augment r_aero = [0.0] @ r_aero @ [1.0]"

text \<open>
  The inner loop of \<open>GridSetup.solve_nonlinear\<close>,
  \<^verbatim>\<open>for j in range(1, naug):
    if r_aug[j] >= r_str[i]:
        j -= 1
        break\<close>
  over the candidates still to come, with the value \<open>j\<close> has so far: a loop that ends
  without \<open>break\<close> leaves \<open>j\<close> at the last candidate. The candidates are below \<open>naug\<close>, so
  \<open>r_aug[j]\<close> is always in range.
\<close>

fun bracket_loop :: "real list \<Rightarrow> real \<Rightarrow> nat list \<Rightarrow> nat \<Rightarrow> nat" where
  "bracket_loop r_aug r [] j = j"
| "bracket_loop r_aug r (k # ks) j =
     (if r_aug ! k \<ge> r then k - 1 else bracket_loop r_aug r ks k)"

text \<open>
  One pass of the outer loop: the index and the fraction of the structural point \<open>r\<close>.
  \<open>range(1, naug)\<close> is never empty (\<open>r_aug\<close> has the two synthetic endpoints), so the
  initial \<open>0\<close> given to the loop is never its result.
\<close>

definition GridSetup_station :: "real list \<Rightarrow> real \<Rightarrow> error + (real \<times> nat)" where
  "GridSetup_station r_aug r =
     (let naug = length r_aug;
          j = bracket_loop r_aug r [1..<naug] 0
      in and_then (getitem r_aug j) (\<lambda>lo.
         and_then (getitem r_aug (j + 1)) (\<lambda>hi.
         and_then (fdiv (r - lo) (hi - lo)) (\<lambda>f. Inr (f, j)))))"

record GridSetup_unknowns =
  u_fraction :: "real list"
  u_idxj :: "nat list"

definition GridSetup_solve_nonlinear :: "real list \<Rightarrow> real list \<Rightarrow> error + GridSetup_unknowns" where
  "GridSetup_solve_nonlinear initial_aero_grid initial_str_grid =
     (let r_aero = initial_aero_grid;
          r_str = initial_str_grid;
          r_aug = augment r_aero
      in and_then (for_collect (GridSetup_station r_aug) r_str) (\<lambda>out.
           Inr \<lparr>u_fraction = map fst out, u_idxj = map snd out\<rparr>))"

text \<open>
  \<open>RGrid.solve_nonlinear\<close>: the unknown \<open>r_str\<close>, one entry for each entry of
  \<open>params['fraction']\<close>.
\<close>

definition RGrid_station :: "real list \<Rightarrow> real list \<Rightarrow> nat list \<Rightarrow> nat \<Rightarrow> error + real" where
  "RGrid_station r_aug fraction idxj i =
     and_then (getitem idxj i) (\<lambda>j.
     and_then (getitem r_aug j) (\<lambda>lo.
     and_then (getitem fraction i) (\<lambda>f.
     and_then (getitem r_aug (j + 1)) (\<lambda>hi.
       Inr (lo + f * (hi - lo))))))"

definition RGrid_solve_nonlinear :: "real list \<Rightarrow> real list \<Rightarrow> nat list \<Rightarrow> error + real list" where
  "RGrid_solve_nonlinear r_aero fraction idxj =
     (let r_aug = augment r_aero;
          nstr = length fraction
      in for_collect (RGrid_station r_aug fraction idxj) [0..<nstr])"

subsection \<open>Library functions of \<open>math\<close> and numpy\<close>

text \<open>
  \<open>math.log\<close> and \<open>math.sqrt\<close> raise \<open>ValueError\<close> outside their domain. \<open>np.log\<close> does
  not raise: it yields \<open>-inf\<close> at \<open>0\<close> and \<open>nan\<close> below, which the model reports as
  \<open>FloatingPointError\<close>.
\<close>

definition math_log :: "real \<Rightarrow> error + real" where
  "math_log x = (if 0 < x then Inr (ln x) else Inl ValueError)"

definition math_sqrt :: "real \<Rightarrow> error + real" where
  "math_sqrt x = (if 0 \<le> x then Inr (sqrt x) else Inl ValueError)"

definition np_log :: "real \<Rightarrow> error + real" where
  "np_log x = (if 0 < x then Inr (ln x) else Inl FloatingPointError)"

text \<open>\<open>np.arctan2(y, x)\<close> on finite arguments: the angle of the point \<open>(x, y)\<close> in \<open>[-\<pi>, \<pi>]\<close>.\<close>

definition arctan2 :: "real \<Rightarrow> real \<Rightarrow> real" where
  "arctan2 y x =
     (if 0 < x then arctan (y / x)
      else if x < 0 \<and> 0 \<le> y then arctan (y / x) + pi
      else if x < 0 then arctan (y / x) - pi
      else if 0 < y then pi / 2
      else if y < 0 then - pi / 2
      else 0)"

text \<open>
  \<open>np.linspace(start, stop, num)\<close>: \<open>num\<close> evenly spaced points from \<open>start\<close> to \<open>stop\<close>,
  both included; a negative \<open>num\<close> raises \<open>ValueError\<close>.
\<close>

definition linspace :: "real \<Rightarrow> real \<Rightarrow> int \<Rightarrow> error + real list" where
  "linspace start stop num =
     (if num < 0 then Inl ValueError
      else if num = 1 then Inr [start]
      else Inr (map (\<lambda>k. start + real k * ((stop - start) / real_of_int (num - 1)))
                  [0..<nat num]))"

subsection \<open>Structural solver: \<open>RotorWithpBEAM.principalCS\<close> and \<open>RotorWithpBEAM.damage\<close>\<close>

text \<open>
  Both methods work on arrays of the declared shape \<open>nstr\<close>, elementwise; the model is the
  body at one station.

  \<open>principalCS(self, EIyy, EIxx, y_ec_str, x_ec_str, EA, EIxy)\<close> in three steps: the
  block under the comment \<open>rename (with swap of x, y for profile c.s.)\<close>, the translation
  to the elastic center, and the rotation angle with the values returned. The record
  holds the local variables between the steps.
\<close>

record principalCS_locals =
  l_EIxx :: real
  l_EIyy :: real
  l_x_ec_str :: real
  l_y_ec_str :: real
  l_EA :: real
  l_EIxy :: real

text \<open>
  \<^verbatim>\<open>EIxx = np.copy(EIyy)
EIyy = np.copy(EIxx)
x_ec_str = np.copy(y_ec_str)
y_ec_str = np.copy(x_ec_str)
EA = np.copy(EA)
EIxy = np.copy(EIxy)\<close>
  Each assignment reads the variables as they are when it runs: the second reads the
  \<open>EIxx\<close> the first has just assigned.
\<close>

definition principalCS_rename ::
  "real \<Rightarrow> real \<Rightarrow> real \<Rightarrow> real \<Rightarrow> real \<Rightarrow> real \<Rightarrow> principalCS_locals" where
  "principalCS_rename EIyy EIxx y_ec_str x_ec_str EA EIxy =
     (let EIxx = EIyy;
          EIyy = EIxx;
          x_ec_str = y_ec_str;
          y_ec_str = x_ec_str;
          EA = EA;
          EIxy = EIxy
      in \<lparr>l_EIxx = EIxx, l_EIyy = EIyy, l_x_ec_str = x_ec_str, l_y_ec_str = y_ec_str,
           l_EA = EA, l_EIxy = EIxy\<rparr>)"

text \<open>
  \<^verbatim>\<open>EIxx -= y_ec_str**2*EA
EIyy -= x_ec_str**2*EA
EIxy -= x_ec_str*y_ec_str*EA\<close>
\<close>

definition principalCS_translate :: "principalCS_locals \<Rightarrow> principalCS_locals" where
  "principalCS_translate l =
     l\<lparr>l_EIxx := l_EIxx l - (l_y_ec_str l)\<^sup>2 * l_EA l,
       l_EIyy := l_EIyy l - (l_x_ec_str l)\<^sup>2 * l_EA l,
       l_EIxy := l_EIxy l - l_x_ec_str l * l_y_ec_str l * l_EA l\<rparr>"

text \<open>\<open>alpha = 0.5*np.arctan2(2*EIxy, EIyy-EIxx)\<close>\<close>

definition principalCS_alpha :: "principalCS_locals \<Rightarrow> real" where
  "principalCS_alpha l = 0.5 * arctan2 (2 * l_EIxy l) (l_EIyy l - l_EIxx l)"

text \<open>The method: it returns \<open>(EI11, EI22, EA, ca, sa)\<close>.\<close>

definition principalCS ::
  "real \<Rightarrow> real \<Rightarrow> real \<Rightarrow> real \<Rightarrow> real \<Rightarrow> real \<Rightarrow> real \<times> real \<times> real \<times> real \<times> real" where
  "principalCS EIyy EIxx y_ec_str x_ec_str EA EIxy =
     (let l = principalCS_translate (principalCS_rename EIyy EIxx y_ec_str x_ec_str EA EIxy);
          alpha = principalCS_alpha l;
          EI11 = l_EIxx l - l_EIxy l * tan alpha;
          EI22 = l_EIyy l + l_EIxy l * tan alpha;
          ca = cos alpha;
          sa = sin alpha
      in (EI11, EI22, l_EA l, ca, sa))"

text \<open>\<open>-(M1/EI11*y - M2/EI22*x + Fz/EA)\<close>, the strain at the point \<open>(x, y)\<close>.\<close>

definition strain_at ::
  "real \<Rightarrow> real \<Rightarrow> real \<Rightarrow> real \<Rightarrow> real \<Rightarrow> real \<Rightarrow> real \<Rightarrow> real \<Rightarrow> error + real" where
  "strain_at M1 M2 Fz EI11 EI22 EA x y =
     and_then (fdiv M1 EI11) (\<lambda>a.
     and_then (fdiv M2 EI22) (\<lambda>b.
     and_then (fdiv Fz EA) (\<lambda>c.
       Inr (- (a * y - b * x + c)))))"

text \<open>
  The first part of \<open>damage\<close>, up to \<open>strainL\<close>: the swaps to the profile coordinate
  system, the moments and the probe points in principal axes, and the two strains.
\<close>

definition damage_strains ::
  "real \<Rightarrow> real \<Rightarrow> real \<Rightarrow> real \<Rightarrow> real \<Rightarrow> real \<Rightarrow> real \<Rightarrow> real \<Rightarrow> real \<Rightarrow> real \<Rightarrow> real
   \<Rightarrow> error + (real \<times> real)" where
  "damage_strains Mx My xu yu xl yl EI11 EI22 EA ca sa =
     (let (Mx, My) = (My, Mx);
          Fz = 0.0;
          (xu, yu) = (yu, xu);
          (xl, yl) = (yl, xl);
          M1 = Mx * ca + My * sa;
          M2 = - Mx * sa + My * ca;
          x = xu * ca + yu * sa;
          y = - xu * sa + yu * ca
      in and_then (strain_at M1 M2 Fz EI11 EI22 EA x y) (\<lambda>strainU.
           let x = xl * ca + yl * sa;
               y = - xl * sa + yl * ca
           in and_then (strain_at M1 M2 Fz EI11 EI22 EA x y) (\<lambda>strainL.
                Inr (strainU, strainL))))"

text \<open>
  \<open>damage(self, Mx, My, xu, yu, xl, yl, EI11, EI22, EA, ca, sa, emax, eta, m, N)\<close>.
  The cycles to failure \<open>NfU\<close>, \<open>NfL\<close> and the cycle ratios \<open>N/NfU\<close>, \<open>N/NfL\<close> are numpy
  expressions, which never raise; \<open>damageU\<close> and \<open>damageL\<close> are then assigned a second
  time, and the second values are the ones returned.
\<close>

definition damage ::
  "real \<Rightarrow> real \<Rightarrow> real \<Rightarrow> real \<Rightarrow> real \<Rightarrow> real \<Rightarrow> real \<Rightarrow> real \<Rightarrow> real \<Rightarrow> real \<Rightarrow> real
   \<Rightarrow> real \<Rightarrow> real \<Rightarrow> real \<Rightarrow> real \<Rightarrow> error + (real \<times> real)" where
  "damage Mx My xu yu xl yl EI11 EI22 EA ca sa emax eta m N =
     and_then (damage_strains Mx My xu yu xl yl EI11 EI22 EA ca sa) (\<lambda>(strainU, strainL).
       let NfU = (emax / (eta * strainU)) powr m;
           NfL = (emax / (eta * strainL)) powr m;
           damageU = N / NfU;
           damageL = N / NfL
       in and_then (math_log N) (\<lambda>log_N.
          and_then (math_log emax) (\<lambda>log_emax.
          and_then (math_log eta) (\<lambda>log_eta.
          and_then (np_log \<bar>strainU\<bar>) (\<lambda>log_strainU.
            let damageU = log_N - m * (log_emax - log_eta - log_strainU)
            in and_then (np_log \<bar>strainL\<bar>) (\<lambda>log_strainL.
                 let damageL = log_N - m * (log_emax - log_eta - log_strainL)
                 in Inr (damageU, damageL)))))))"

subsection \<open>Geometry: \<open>GeometrySpline\<close>\<close>

record GeometrySpline_params =
  p_r_aero_unit :: "real list"
  p_r_str_unit :: "real list"
  p_r_max_chord :: real
  p_chord_sub :: "real list"
  p_theta_sub :: "real list"
  p_precurve_sub :: "real list"
  p_bladeLength :: real
  p_sparT :: "real list"
  p_teT :: "real list"
  p_idx_cylinder_aero :: nat
  p_idx_cylinder_str :: nat
  p_hubFraction :: real

record GeometrySpline_unknowns =
  u_Rhub :: real
  u_Rtip :: real
  u_r_aero :: "real list"
  u_r_str :: "real list"
  u_chord_aero :: "real list"
  u_chord_str :: "real list"
  u_theta_aero :: "real list"
  u_theta_str :: "real list"
  u_precurve_aero :: "real list"
  u_precurve_str :: "real list"
  u_presweep_str :: "real list"
  u_sparT_str :: "real list"
  u_teT_str :: "real list"
  u_r_sub_precurve :: "real list"
  u_diameter :: real

text \<open>
  \<open>GeometrySpline.solve_nonlinear\<close>. The class \<open>Akima\<close> comes from the package \<open>akima\<close>,
  outside this repository, and is a parameter of the model: \<open>Akima x y\<close> builds the spline
  through the points \<open>(x, y)\<close>, and \<open>interp spline pts\<close> is the first component of what
  \<open>spline.interp(pts)\<close> returns, the values at \<open>pts\<close>. Either may raise.
\<close>

definition GeometrySpline_solve_nonlinear ::
  "(real list \<Rightarrow> real list \<Rightarrow> error + 'spline) \<Rightarrow> ('spline \<Rightarrow> real list \<Rightarrow> error + real list)
   \<Rightarrow> GeometrySpline_params \<Rightarrow> error + GeometrySpline_unknowns" where
  "GeometrySpline_solve_nonlinear Akima interp params =
     (let Rhub = p_hubFraction params * p_bladeLength params;
          Rtip = Rhub + p_bladeLength params;
          nc = int (length (p_chord_sub params));
          r_max_chord = Rhub + (Rtip - Rhub) * p_r_max_chord params
      in and_then (linspace r_max_chord Rtip (nc - 1)) (\<lambda>rc.
         let rc = [Rhub] @ rc
         in and_then (Akima rc (p_chord_sub params)) (\<lambda>chord_spline.
         let nt = int (length (p_theta_sub params));
             idxc_aero = p_idx_cylinder_aero params;
             idxc_str = p_idx_cylinder_str params
         in and_then (getitem (p_r_aero_unit params) idxc_aero) (\<lambda>r_unit_cylinder.
         let r_cylinder = Rhub + (Rtip - Rhub) * r_unit_cylinder
         in and_then (linspace r_cylinder Rtip nt) (\<lambda>rt.
         and_then (Akima rt (p_theta_sub params)) (\<lambda>theta_spline.
         and_then (Akima rc ([0.0] @ p_precurve_sub params)) (\<lambda>precurve_spline.
         let r_sub_precurve = drop 1 rc;
             diameter = 2.0 * Rhub;
             r_aero = map (\<lambda>u. Rhub + (Rtip - Rhub) * u) (p_r_aero_unit params);
             r_str = map (\<lambda>u. Rhub + (Rtip - Rhub) * u) (p_r_str_unit params)
         in and_then (interp chord_spline r_aero) (\<lambda>chord_aero.
         and_then (interp chord_spline r_str) (\<lambda>chord_str.
         and_then (interp theta_spline (drop idxc_aero r_aero)) (\<lambda>theta_outer_aero.
         and_then (interp theta_spline (drop idxc_str r_str)) (\<lambda>theta_outer_str.
         and_then (getitem theta_outer_aero 0) (\<lambda>theta_first_aero.
         let theta_aero = replicate idxc_aero (theta_first_aero * 1) @ theta_outer_aero
         in and_then (getitem theta_outer_str 0) (\<lambda>theta_first_str.
         let theta_str = replicate idxc_str (theta_first_str * 1) @ theta_outer_str
         in and_then (interp precurve_spline r_aero) (\<lambda>precurve_aero.
         and_then (interp precurve_spline r_str) (\<lambda>precurve_str.
         let presweep_str = map (\<lambda>_. 0) precurve_str;
             nt = int (length (p_sparT params))
         in and_then (linspace 0.0 Rtip nt) (\<lambda>rt.
         and_then (Akima rt (p_sparT params)) (\<lambda>sparT_spline.
         and_then (Akima rt (p_teT params)) (\<lambda>teT_spline.
         and_then (interp sparT_spline r_str) (\<lambda>sparT_str.
         and_then (interp teT_spline r_str) (\<lambda>teT_str.
           Inr \<lparr>u_Rhub = Rhub, u_Rtip = Rtip, u_r_aero = r_aero, u_r_str = r_str,
                u_chord_aero = chord_aero, u_chord_str = chord_str,
                u_theta_aero = theta_aero, u_theta_str = theta_str,
                u_precurve_aero = precurve_aero, u_precurve_str = precurve_str,
                u_presweep_str = presweep_str, u_sparT_str = sparT_str,
                u_teT_str = teT_str, u_r_sub_precurve = r_sub_precurve,
                u_diameter = diameter\<rparr>))))))))))))))))))))"

subsection \<open>Composite sections\<close>

text \<open>
  A \<open>CompositeSection\<close> (module \<open>precomp\<close>) holds the sector boundaries \<open>loc\<close> and, for
  every sector, one numpy array each of ply counts \<open>n\<close>, ply thicknesses \<open>t\<close>,
  orientations \<open>theta\<close> and materials \<open>mat\<close>. Its fields carry the prefix \<open>cs_\<close>.

  The code of this file writes into the thickness arrays in place
  (\<open>upper.t[j] *= factor\<close>), so these arrays live in a heap and \<open>cs_t\<close> holds their
  addresses: two sections that share an array hold the same address. The heap is the list
  of all arrays allocated so far, and an address is a position in it. Nothing here writes
  into the other fields, which are modelled as values; a material is the number of its
  entry in the list of materials.
\<close>

type_synonym addr = nat

type_synonym heap = "real list list"

record CompositeSection =
  cs_loc :: "real list"
  cs_n :: "int list list"
  cs_t :: "addr list"
  cs_theta :: "real list list"
  cs_mat :: "nat list list"

text \<open>
  Modelled from the spec: \<open>CompositeSection.mycopy\<close>, which is not in the source files.
  The specification has the resizer deep-copy each station's sections before scaling, so
  \<open>mycopy\<close> allocates a new array for every thickness array of the section, with the same
  contents, and returns a section that holds the new addresses and the same other fields.
\<close>

definition mycopy :: "heap \<Rightarrow> CompositeSection \<Rightarrow> heap \<times> CompositeSection" where
  "mycopy h cs =
     (h @ map (\<lambda>a. h ! a) (cs_t cs),
      cs\<lparr>cs_t := [length h ..< length h + length (cs_t cs)]\<rparr>)"

text \<open>\<open>a *= c\<close> for the numpy array at address \<open>a\<close>: every entry is multiplied, in place.\<close>

definition imul :: "heap \<Rightarrow> addr \<Rightarrow> real \<Rightarrow> heap" where
  "imul h a c = h[a := map (\<lambda>x. x * c) (h ! a)]"

text \<open>
  An exception raised while the heap is \<open>h\<close>. What has been written into the arrays
  before the exception stays written, so the exception is kept together with the heap.
\<close>

definition raised_in :: "heap \<Rightarrow> error + 'a \<Rightarrow> error \<times> heap + 'a" where
  "raised_in h m = (case m of Inl e \<Rightarrow> Inl (e, h) | Inr v \<Rightarrow> Inr v)"

subsection \<open>Cross-section properties: \<open>PreCompSections.panelBucklingStrain\<close>\<close>

text \<open>
  A matrix \<open>D\<close> is a function of the two indices: \<open>D[0, 1]\<close> is \<open>D 0 1\<close>.

  The methods \<open>cs.compositeMatrices(sector_idx)\<close>, which returns
  \<open>(A, B, D, totalHeight)\<close>, and \<open>cs.effectiveEAxial(sector_idx)\<close> are not in the source
  files; they are parameters of the model, and read the section from the heap.
\<close>

type_synonym matrix = "nat \<Rightarrow> nat \<Rightarrow> real"

definition panelBucklingStrain_station ::
  "(heap \<Rightarrow> CompositeSection \<Rightarrow> nat \<Rightarrow> error + (matrix \<times> matrix \<times> matrix \<times> real))
   \<Rightarrow> (heap \<Rightarrow> CompositeSection \<Rightarrow> nat \<Rightarrow> error + real)
   \<Rightarrow> heap \<Rightarrow> real list \<Rightarrow> CompositeSection list \<Rightarrow> nat list \<Rightarrow> nat \<Rightarrow> error + real" where
  "panelBucklingStrain_station compositeMatrices effectiveEAxial h chord CS_list sector_idx_strain i =
     and_then (getitem CS_list i) (\<lambda>cs.
     and_then (getitem sector_idx_strain i) (\<lambda>sector_idx.
     and_then (getitem chord i) (\<lambda>chord_i.
     and_then (getitem (cs_loc cs) (sector_idx + 1)) (\<lambda>loc_hi.
     and_then (getitem (cs_loc cs) sector_idx) (\<lambda>loc_lo.
     let sector_length = chord_i * (loc_hi - loc_lo)
     in and_then (compositeMatrices h cs sector_idx) (\<lambda>(A, B, D, totalHeight).
     and_then (effectiveEAxial h cs sector_idx) (\<lambda>E.
     let D1 = D 0 0;
         D2 = D 1 1;
         D3 = D 0 1 + 2 * D 2 2
     in and_then (fdiv pi sector_length) (\<lambda>pi_over_length.
     and_then (math_sqrt (D1 * D2)) (\<lambda>root.
     let Nxx = 2 * pi_over_length\<^sup>2 * (root + D3)
     in and_then (fdiv (- Nxx) totalHeight) (\<lambda>q.
        fdiv q E))))))))))"

text \<open>
  \<open>panelBucklingStrain(self, sector_idx_strain)\<close>, with \<open>self.chord\<close> and \<open>self.upperCS\<close>
  as arguments: one critical strain per entry of \<open>chord\<close>.
\<close>

definition panelBucklingStrain ::
  "(heap \<Rightarrow> CompositeSection \<Rightarrow> nat \<Rightarrow> error + (matrix \<times> matrix \<times> matrix \<times> real))
   \<Rightarrow> (heap \<Rightarrow> CompositeSection \<Rightarrow> nat \<Rightarrow> error + real)
   \<Rightarrow> heap \<Rightarrow> real list \<Rightarrow> CompositeSection list \<Rightarrow> nat list \<Rightarrow> error + real list" where
  "panelBucklingStrain compositeMatrices effectiveEAxial h chord upperCS sector_idx_strain =
     (let CS_list = upperCS;
          nsec = length chord
      in for_collect
           (panelBucklingStrain_station compositeMatrices effectiveEAxial h chord CS_list
              sector_idx_strain)
           [0..<nsec])"

subsection \<open>Composite section resizer: \<open>ResizeCompositeSection\<close>\<close>

record ResizeCompositeSection_unknowns =
  u_upperCSOut :: "CompositeSection list"
  u_lowerCSOut :: "CompositeSection list"
  u_websCSOut :: "CompositeSection list"

text \<open>
  The first loop of \<open>ResizeCompositeSection.solve_nonlinear\<close>, under the comment
  \<open>copy data acrosss\<close>: one pass appends a copy of the station's three sections to the
  three output lists.
\<close>

definition copy_station ::
  "CompositeSection list \<Rightarrow> CompositeSection list \<Rightarrow> CompositeSection list \<Rightarrow> nat
   \<Rightarrow> heap \<times> ResizeCompositeSection_unknowns
   \<Rightarrow> error \<times> heap + heap \<times> ResizeCompositeSection_unknowns" where
  "copy_station upperCSIn lowerCSIn websCSIn i s =
     (let (h, out) = s
      in and_then (raised_in h (getitem upperCSIn i)) (\<lambda>upper_in.
         let (h, upper) = mycopy h upper_in;
             out = out\<lparr>u_upperCSOut := u_upperCSOut out @ [upper]\<rparr>
         in and_then (raised_in h (getitem lowerCSIn i)) (\<lambda>lower_in.
         let (h, lower) = mycopy h lower_in;
             out = out\<lparr>u_lowerCSOut := u_lowerCSOut out @ [lower]\<rparr>
         in and_then (raised_in h (getitem websCSIn i)) (\<lambda>webs_in.
         let (h, webs) = mycopy h webs_in;
             out = out\<lparr>u_websCSOut := u_websCSOut out @ [webs]\<rparr>
         in Inr (h, out)))))"

text \<open>\<open>for j in range(len(cs.t)): cs.t[j] *= factor\<close>\<close>

definition scale_thicknesses :: "heap \<Rightarrow> CompositeSection \<Rightarrow> real \<Rightarrow> heap" where
  "scale_thicknesses h cs factor = fold (\<lambda>a h. imul h a factor) (cs_t cs) h"

text \<open>
  The second loop, \<open>scale all thicknesses with airfoil thickness\<close>: one pass scales every
  thickness array of the station's three output sections by
  \<open>factor = chord_str[i]/chord_str_ref[i]\<close>.
\<close>

definition scale_station ::
  "real list \<Rightarrow> real list \<Rightarrow> ResizeCompositeSection_unknowns \<Rightarrow> nat \<Rightarrow> heap
   \<Rightarrow> error \<times> heap + heap" where
  "scale_station chord_str chord_str_ref out i h =
     and_then (raised_in h (getitem (u_upperCSOut out) i)) (\<lambda>upper.
     and_then (raised_in h (getitem (u_lowerCSOut out) i)) (\<lambda>lower.
     and_then (raised_in h (getitem (u_websCSOut out) i)) (\<lambda>webs.
     and_then (raised_in h (getitem chord_str i)) (\<lambda>chord_i.
     and_then (raised_in h (getitem chord_str_ref i)) (\<lambda>chord_ref_i.
     and_then (raised_in h (fdiv chord_i chord_ref_i)) (\<lambda>factor.
       let h = scale_thicknesses h upper factor;
           h = scale_thicknesses h lower factor;
           h = scale_thicknesses h webs factor
       in Inr h))))))"

text \<open>
  The third loop, \<open>change spar and trailing edge thickness to specified values\<close>. Both
  sums \<open>tspar\<close> and \<open>tte\<close> are taken from the upper section before any of the four
  in-place products:
  \<^verbatim>\<open>tspar = np.sum(upper.t[idx_spar])
tte = np.sum(upper.t[idx_te])
upper.t[idx_spar] *= sparT_str[i]/tspar
lower.t[idx_spar] *= sparT_str[i]/tspar
upper.t[idx_te] *= teT_str[i]/tte
lower.t[idx_te] *= teT_str[i]/tte\<close>
\<close>

definition resize_station ::
  "nat list \<Rightarrow> nat list \<Rightarrow> real list \<Rightarrow> real list \<Rightarrow> ResizeCompositeSection_unknowns \<Rightarrow> nat
   \<Rightarrow> heap \<Rightarrow> error \<times> heap + heap" where
  "resize_station sector_idx_strain_spar sector_idx_strain_te sparT_str teT_str out i h =
     and_then (raised_in h (getitem sector_idx_strain_spar i)) (\<lambda>idx_spar.
     and_then (raised_in h (getitem sector_idx_strain_te i)) (\<lambda>idx_te.
     and_then (raised_in h (getitem (u_upperCSOut out) i)) (\<lambda>upper.
     and_then (raised_in h (getitem (u_lowerCSOut out) i)) (\<lambda>lower.
     and_then (raised_in h (getitem (cs_t upper) idx_spar)) (\<lambda>upper_spar.
     let tspar = sum_list (h ! upper_spar)
     in and_then (raised_in h (getitem (cs_t upper) idx_te)) (\<lambda>upper_te.
     let tte = sum_list (h ! upper_te)
     in and_then (raised_in h (getitem sparT_str i)) (\<lambda>sparT_i.
     and_then (raised_in h (fdiv sparT_i tspar)) (\<lambda>spar_factor.
     let h = imul h upper_spar spar_factor
     in and_then (raised_in h (getitem (cs_t lower) idx_spar)) (\<lambda>lower_spar.
     let h = imul h lower_spar spar_factor
     in and_then (raised_in h (getitem teT_str i)) (\<lambda>teT_i.
     and_then (raised_in h (fdiv teT_i tte)) (\<lambda>te_factor.
     let h = imul h upper_te te_factor
     in and_then (raised_in h (getitem (cs_t lower) idx_te)) (\<lambda>lower_te.
     let h = imul h lower_te te_factor
     in Inr h))))))))))))"

text \<open>
  \<open>ResizeCompositeSection.solve_nonlinear\<close>, from the heap before the call: the heap after
  the call and the three output lists, or the exception and the heap it leaves.
\<close>

definition ResizeCompositeSection_solve_nonlinear ::
  "heap \<Rightarrow> CompositeSection list \<Rightarrow> CompositeSection list \<Rightarrow> CompositeSection list
   \<Rightarrow> real list \<Rightarrow> nat list \<Rightarrow> nat list \<Rightarrow> real list \<Rightarrow> real list \<Rightarrow> real list
   \<Rightarrow> error \<times> heap + heap \<times> ResizeCompositeSection_unknowns" where
  "ResizeCompositeSection_solve_nonlinear h upperCSIn lowerCSIn websCSIn chord_str_ref
       sector_idx_strain_spar sector_idx_strain_te chord_str sparT_str teT_str =
     (let nstr = length chord_str_ref
      in and_then (for_each (copy_station upperCSIn lowerCSIn websCSIn) [0..<nstr]
                     (h, \<lparr>u_upperCSOut = [], u_lowerCSOut = [], u_websCSOut = []\<rparr>))
           (\<lambda>(h, out).
         and_then (for_each (scale_station chord_str chord_str_ref out) [0..<nstr] h) (\<lambda>h.
         and_then (for_each (resize_station sector_idx_strain_spar sector_idx_strain_te
                               sparT_str teT_str out) [0..<nstr] h) (\<lambda>h.
           Inr (h, out)))))"

subsection \<open>Notions used in the proofs about the resizer\<close>

text \<open>
  The addresses of the thickness arrays of the three output sections of station \<open>i\<close>.
\<close>

definition station_addrs :: "ResizeCompositeSection_unknowns \<Rightarrow> nat \<Rightarrow> addr list" where
  "station_addrs out i =
     cs_t (u_upperCSOut out ! i) @ cs_t (u_lowerCSOut out ! i) @ cs_t (u_websCSOut out ! i)"

text \<open>
  The section \<open>cs'\<close> in the heap \<open>h'\<close> is a copy of the section \<open>cs\<close> in the heap \<open>h\<close>: the
  same fields but for the addresses, and sector by sector the same thicknesses.
\<close>

definition copy_of :: "heap \<Rightarrow> CompositeSection \<Rightarrow> heap \<Rightarrow> CompositeSection \<Rightarrow> bool" where
  "copy_of h cs h' cs' \<longleftrightarrow>
     cs' = cs\<lparr>cs_t := cs_t cs'\<rparr> \<and> length (cs_t cs') = length (cs_t cs)
     \<and> (\<forall>k<length (cs_t cs). h' ! (cs_t cs' ! k) = h ! (cs_t cs ! k))"

text \<open>
  The state of the copy loop after \<open>m\<close> passes, started in the heap \<open>h0\<close>: the heap has
  only grown, the output sections of the different stations and surfaces hold pairwise
  different addresses, all of them allocated since the start, and each output section is
  a copy of its input.
\<close>

definition copies_inv ::
  "heap \<Rightarrow> CompositeSection list \<Rightarrow> CompositeSection list \<Rightarrow> CompositeSection list \<Rightarrow> nat
   \<Rightarrow> heap \<times> ResizeCompositeSection_unknowns \<Rightarrow> bool" where
  "copies_inv h0 U L W m s \<longleftrightarrow>
     length (u_upperCSOut (snd s)) = m \<and> length (u_lowerCSOut (snd s)) = m
     \<and> length (u_websCSOut (snd s)) = m
     \<and> m \<le> length U \<and> m \<le> length L \<and> m \<le> length W
     \<and> length h0 \<le> length (fst s) \<and> (\<forall>a<length h0. fst s ! a = h0 ! a)
     \<and> distinct (concat (map (station_addrs (snd s)) [0..<m]))
     \<and> (\<forall>i<m. set (station_addrs (snd s) i) \<subseteq> {length h0..<length (fst s)})
     \<and> (\<forall>i<m. copy_of h0 (U ! i) (fst s) (u_upperCSOut (snd s) ! i)
              \<and> copy_of h0 (L ! i) (fst s) (u_lowerCSOut (snd s) ! i)
              \<and> copy_of h0 (W ! i) (fst s) (u_websCSOut (snd s) ! i))"

text \<open>Every thickness array of the sections is in the heap.\<close>

definition sections_in_heap :: "heap \<Rightarrow> CompositeSection list \<Rightarrow> bool" where
  "sections_in_heap h css \<longleftrightarrow> (\<forall>cs\<in>set css. \<forall>a\<in>set (cs_t cs). a < length h)"

section \<open>Theorems\<close>

subsection \<open>Sequencing and loops\<close>

lemma and_then_Inr [simp]: "and_then (Inr v) f = f v"
  by (simp add: and_then_def)

lemma and_then_Inl [simp]: "and_then (Inl e) f = Inl e"
  by (simp add: and_then_def)

lemma and_then_eq_Inr: "and_then m f = Inr y \<longleftrightarrow> (\<exists>v. m = Inr v \<and> f v = Inr y)"
  by (cases m) simp_all

lemma getitem_eq_Inr: "getitem xs i = Inr x \<longleftrightarrow> i < length xs \<and> x = xs ! i"
  by (auto simp: getitem_def)

lemma fdiv_eq_Inr: "fdiv a b = Inr q \<longleftrightarrow> b \<noteq> 0 \<and> q = a / b"
  by (auto simp: fdiv_def)

lemma for_collect_eq_Inr:
  "for_collect f xs = Inr ys \<longleftrightarrow> list_all2 (\<lambda>x y. f x = Inr y) xs ys"
proof (induction xs arbitrary: ys)
  case Nil
  show ?case by auto
next
  case (Cons x xs)
  show ?case
    by (auto simp: and_then_eq_Inr Cons.IH list_all2_Cons1)
qed

subsection \<open>Environment models\<close>

text \<open>
  C7. \<open>TurbineClass.solve_nonlinear\<close> maps turbine class I to \<open>Vref = 50\<close>, II to \<open>42.5\<close>
  and III to \<open>37.5\<close>, and outputs \<open>V_mean = 0.2 Vref\<close> and \<open>V_extreme = 1.4 Vref\<close>.
  \<open>GustETM.solve_nonlinear\<close> maps turbulence class A to \<open>Iref = 0.16\<close>, B to \<open>0.14\<close> and
  C to \<open>0.12\<close>, and outputs \<open>V_gust = V_hub + std \<sigma>\<close> with
  \<open>\<sigma> = 2 Iref (0.072 (V_mean/2 + 3) (V_hub/2 - 4) + 10)\<close>, for every \<open>V_mean\<close>, \<open>V_hub\<close>
  and \<open>std\<close>.
\<close>

theorem environment_models:
  "TurbineClass_solve_nonlinear ''I'' =
     Inr \<lparr>u_V_mean = 0.2 * 50, u_V_extreme = 1.4 * 50, u_V_extreme_full = (1.4 * 50, 1.4 * 50)\<rparr>
   \<and> TurbineClass_solve_nonlinear ''II'' =
     Inr \<lparr>u_V_mean = 0.2 * 42.5, u_V_extreme = 1.4 * 42.5,
          u_V_extreme_full = (1.4 * 42.5, 1.4 * 42.5)\<rparr>
   \<and> TurbineClass_solve_nonlinear ''III'' =
     Inr \<lparr>u_V_mean = 0.2 * 37.5, u_V_extreme = 1.4 * 37.5,
          u_V_extreme_full = (1.4 * 37.5, 1.4 * 37.5)\<rparr>
   \<and> GustETM_solve_nonlinear Vm Vh ''A'' std =
     Inr (Vh + std * (2 * 0.16 * (0.072 * (Vm / 2 + 3) * (Vh / 2 - 4) + 10)))
   \<and> GustETM_solve_nonlinear Vm Vh ''B'' std =
     Inr (Vh + std * (2 * 0.14 * (0.072 * (Vm / 2 + 3) * (Vh / 2 - 4) + 10)))
   \<and> GustETM_solve_nonlinear Vm Vh ''C'' std =
     Inr (Vh + std * (2 * 0.12 * (0.072 * (Vm / 2 + 3) * (Vh / 2 - 4) + 10)))"
  by (simp add: TurbineClass_solve_nonlinear_def TurbineClass_Vref_def
      GustETM_solve_nonlinear_def GustETM_Iref_def and_then_def)

text \<open>
  C9. For every thrust pair \<open>T\<close>, torque pair \<open>Q\<close> and blade count \<open>n\<close> (not zero, so that
  the averages are finite), \<open>ExtremeLoads.solve_nonlinear\<close> outputs
  \<open>T_extreme = (T[0] + T[1] (n - 1)) / n\<close> and \<open>Q_extreme = 0.0\<close>, whatever \<open>Q\<close> is.
\<close>

theorem extreme_loads_torque_is_zero:
  assumes "nBlades \<noteq> 0"
  shows "ExtremeLoads_solve_nonlinear (T0, T1) Q nBlades =
           Inr \<lparr>u_T_extreme = (T0 + T1 * (real_of_int nBlades - 1)) / real_of_int nBlades,
                u_Q_extreme = 0\<rparr>"
  using assms by (simp add: ExtremeLoads_solve_nonlinear_def fdiv_def and_then_def Let_def)

theorem extreme_loads_torque_is_zero_witness:
  "ExtremeLoads_solve_nonlinear (300, 30) (500, 50) 3 =
     Inr \<lparr>u_T_extreme = 120, u_Q_extreme = 0\<rparr>"
  using extreme_loads_torque_is_zero [of 3 300 30 "(500, 50)"] by simp

subsection \<open>Grid mapper\<close>

lemma bracket_loop_upt:
  assumes "a \<le> k" "k < n" "r \<le> r_aug ! k" "1 \<le> a"
  shows "\<exists>k0. a \<le> k0 \<and> k0 \<le> k \<and> r \<le> r_aug ! k0 \<and> (\<forall>k'. a \<le> k' \<and> k' < k0 \<longrightarrow> r_aug ! k' < r)
            \<and> bracket_loop r_aug r [a..<n] j = k0 - 1"
  using assms
proof (induction "k - a" arbitrary: a j)
  case 0
  then have "a = k" by simp
  with 0 show ?case by (auto simp: upt_conv_Cons intro!: exI[of _ k])
next
  case (Suc d)
  then have an: "a < n" and ak: "a < k" by simp_all
  show ?case
  proof (cases "r \<le> r_aug ! a")
    case True
    with an Suc.prems show ?thesis
      by (auto simp: upt_conv_Cons intro!: exI[of _ a])
  next
    case False
    from Suc have "d = k - Suc a" "Suc a \<le> k" "1 \<le> Suc a" by simp_all
    from Suc.hyps(1)[OF this(1,2) Suc.prems(2,3) this(3), of a]
    obtain k0 where k0: "Suc a \<le> k0" "k0 \<le> k" "r \<le> r_aug ! k0"
      "\<forall>k'. Suc a \<le> k' \<and> k' < k0 \<longrightarrow> r_aug ! k' < r"
      "bracket_loop r_aug r [Suc a..<n] a = k0 - 1" by blast
    have "\<forall>k'. a \<le> k' \<and> k' < k0 \<longrightarrow> r_aug ! k' < r"
    proof (intro allI impI)
      fix k' assume "a \<le> k' \<and> k' < k0"
      then show "r_aug ! k' < r" using k0(4) False by (cases "k' = a") auto
    qed
    with k0 an False show ?thesis
      by (auto simp: upt_conv_Cons intro!: exI[of _ k0])
  qed
qed


lemma augment_length: "length (augment r_aero) = length r_aero + 2"
  by (simp add: augment_def)

lemma augment_first: "augment r_aero ! 0 = 0"
  by (simp add: augment_def)

lemma augment_last: "augment r_aero ! Suc (length r_aero) = 1"
  by (simp add: augment_def nth_append)

lemma GridSetup_station_ok:
  assumes r1: "r \<le> 1" and nz: "\<not> (r \<le> 0 \<and> augment r_aero ! 1 = 0)"
  shows "\<exists>j. j + 1 < length (augment r_aero) \<and> r \<le> augment r_aero ! (j + 1)
            \<and> (j = 0 \<or> augment r_aero ! j < r)
            \<and> (\<forall>k. 1 \<le> k \<and> k \<le> j \<longrightarrow> augment r_aero ! k < r)
            \<and> augment r_aero ! (j + 1) \<noteq> augment r_aero ! j
            \<and> GridSetup_station (augment r_aero) r =
                Inr ((r - augment r_aero ! j) / (augment r_aero ! (j + 1) - augment r_aero ! j), j)"
proof -
  let ?aug = "augment r_aero"
  let ?n = "length ?aug"
  have last: "r \<le> ?aug ! Suc (length r_aero)" using r1 by (simp add: augment_last)
  have "1 \<le> Suc (length r_aero)" "Suc (length r_aero) < ?n" by (simp_all add: augment_length)
  from bracket_loop_upt[OF this(1) this(2) last, of 0]
  obtain k0 where k0: "1 \<le> k0" "k0 \<le> Suc (length r_aero)" "r \<le> ?aug ! k0"
    "\<forall>k'. 1 \<le> k' \<and> k' < k0 \<longrightarrow> ?aug ! k' < r"
    "bracket_loop ?aug r [1..<?n] 0 = k0 - 1" by auto
  define j where "j = k0 - 1"
  have j: "j + 1 = k0" "j + 1 < ?n" using k0(1,2) by (simp_all add: j_def augment_length)
  have lo: "j = 0 \<or> ?aug ! j < r"
  proof (cases "j = 0")
    case False
    then have "1 \<le> j \<and> j < k0" using j by simp
    with k0(4) show ?thesis by blast
  qed simp
  have width: "?aug ! (j + 1) \<noteq> ?aug ! j"
  proof (cases "j = 0")
    case True
    with j k0(3) have "r \<le> ?aug ! 1" by simp
    with nz have "?aug ! 1 \<noteq> 0" by (cases "r \<le> 0") auto
    with True show ?thesis by (simp add: augment_first)
  next
    case False
    with lo k0(3) j show ?thesis by auto
  qed
  have below: "\<forall>k. 1 \<le> k \<and> k \<le> j \<longrightarrow> ?aug ! k < r"
    using k0(4) j by auto
  have "GridSetup_station ?aug r = Inr ((r - ?aug ! j) / (?aug ! (j + 1) - ?aug ! j), j)"
    using j width k0(5)
    by (simp add: GridSetup_station_def Let_def getitem_def fdiv_def j_def)
  with j lo width below k0(3) show ?thesis by (intro exI[of _ j]) simp
qed

lemma GridSetup_station_Inr:
  assumes "GridSetup_station r_aug r = Inr (f, j)"
  shows "j + 1 < length r_aug \<and> r_aug ! (j + 1) \<noteq> r_aug ! j
         \<and> f = (r - r_aug ! j) / (r_aug ! (j + 1) - r_aug ! j)"
  using assms
  by (auto simp: GridSetup_station_def Let_def and_then_eq_Inr getitem_eq_Inr fdiv_eq_Inr)

lemma RGrid_station_roundtrip:
  assumes "GridSetup_station r_aug r = Inr (f, j)" "i < length fraction" "i < length idxj"
    "fraction ! i = f" "idxj ! i = j"
  shows "RGrid_station r_aug fraction idxj i = Inr r"
proof -
  from GridSetup_station_Inr[OF assms(1)]
  have j: "j + 1 < length r_aug" and w: "r_aug ! (j + 1) \<noteq> r_aug ! j"
    and f: "f = (r - r_aug ! j) / (r_aug ! (j + 1) - r_aug ! j)" by simp_all
  from w have "r_aug ! j + f * (r_aug ! (j + 1) - r_aug ! j) = r"
    by (simp add: f)
  with j assms(2-5) show ?thesis
    by (simp add: RGrid_station_def getitem_def)
qed

lemma GridSetup_roundtrip_general:
  assumes "GridSetup_solve_nonlinear r_aero r_str = Inr out"
  shows "RGrid_solve_nonlinear r_aero (u_fraction out) (u_idxj out) = Inr r_str"
proof -
  from assms obtain ps where ps: "list_all2 (\<lambda>r p. GridSetup_station (augment r_aero) r = Inr p) r_str ps"
    and out: "out = \<lparr>u_fraction = map fst ps, u_idxj = map snd ps\<rparr>"
    by (auto simp: GridSetup_solve_nonlinear_def Let_def and_then_eq_Inr for_collect_eq_Inr)
  have len: "length ps = length r_str" using ps by (simp add: list_all2_lengthD)
  have "list_all2 (\<lambda>i r. RGrid_station (augment r_aero) (map fst ps) (map snd ps) i = Inr r)
          [0..<length ps] r_str"
  proof (rule list_all2_all_nthI)
    show "length [0..<length ps] = length r_str" using len by simp
  next
    fix i assume "i < length [0..<length ps]"
    then have i: "i < length ps" by simp
    with len have "i < length r_str" by simp
    from list_all2_nthD[OF ps this]
    have "GridSetup_station (augment r_aero) (r_str ! i) = Inr (fst (ps ! i), snd (ps ! i))"
      by simp
    from RGrid_station_roundtrip[OF this, of i "map fst ps" "map snd ps"] i
    show "RGrid_station (augment r_aero) (map fst ps) (map snd ps) ([0..<length ps] ! i) = Inr (r_str ! i)"
      by simp
  qed
  then show ?thesis
    by (simp add: RGrid_solve_nonlinear_def Let_def out for_collect_eq_Inr)
qed


lemma for_collect_total:
  assumes "\<forall>x\<in>set xs. \<exists>y. f x = Inr y"
  shows "\<exists>ys. for_collect f xs = Inr ys"
  using assms by (induction xs) auto

lemma augment_second_nonzero:
  assumes "0 \<notin> set r_aero"
  shows "augment r_aero ! 1 \<noteq> 0"
  using assms by (cases r_aero) (auto simp: augment_def)

lemma GridSetup_returns:
  assumes str: "set r_str \<subseteq> {0..1}" and nz: "\<not> (0 \<in> set r_aero \<and> 0 \<in> set r_str)"
  shows "\<exists>out. GridSetup_solve_nonlinear r_aero r_str = Inr out"
proof -
  have "\<forall>r\<in>set r_str. \<exists>p. GridSetup_station (augment r_aero) r = Inr p"
  proof
    fix r assume r: "r \<in> set r_str"
    with str have r01: "0 \<le> r" "r \<le> 1" by auto
    have "\<not> (r \<le> 0 \<and> augment r_aero ! 1 = 0)"
    proof
      assume a: "r \<le> 0 \<and> augment r_aero ! 1 = 0"
      with r01 have "r = 0" by simp
      with r nz have "0 \<notin> set r_aero" by auto
      from augment_second_nonzero[OF this] a show False by simp
    qed
    from GridSetup_station_ok[OF r01(2) this]
    show "\<exists>p. GridSetup_station (augment r_aero) r = Inr p" by blast
  qed
  from for_collect_total[OF this] show ?thesis
    by (auto simp: GridSetup_solve_nonlinear_def Let_def)
qed

lemma sorted_augment:
  assumes "sorted_wrt (<) r_aero" "set r_aero \<subseteq> {0..1}"
  shows "sorted (augment r_aero)"
proof -
  from assms(1) have "sorted r_aero" by (rule strict_sorted_imp_sorted)
  with assms(2) show ?thesis by (auto simp: augment_def sorted_append)
qed

lemma GridSetup_station_unique:
  assumes srt: "sorted r_aug"
    and below: "\<forall>k. 1 \<le> k \<and> k \<le> j \<longrightarrow> r_aug ! k < r"
    and up: "r \<le> r_aug ! (j + 1)" and j: "j + 1 < length r_aug"
    and k: "k + 1 < length r_aug" "r_aug ! k < r \<or> (k = 0 \<and> r_aug ! k = r)" "r \<le> r_aug ! (k + 1)"
  shows "k = j"
proof (rule ccontr)
  assume "k \<noteq> j"
  then consider "k < j" | "j < k" by linarith
  then show False
  proof cases
    case 1
    then have "1 \<le> k + 1 \<and> k + 1 \<le> j" by simp
    with below have "r_aug ! (k + 1) < r" by blast
    with k(3) show False by simp
  next
    case 2
    then have "j + 1 \<le> k" by simp
    from sorted_nth_mono[OF srt this] k(1) have "r_aug ! (j + 1) \<le> r_aug ! k" by simp
    with up have "r \<le> r_aug ! k" by simp
    with k(2) 2 show False by auto
  qed
qed

text \<open>
  C1 (as amended). For every strictly increasing aerodynamic grid in \<open>[0,1]\<close> and every
  structural grid in \<open>[0,1]\<close> that do not both contain the point \<open>0\<close>,
  \<open>GridSetup.solve_nonlinear\<close> returns, and assigns to every structural point \<open>r_str[i]\<close>
  the unique index \<open>j\<close> of the augmented aerodynamic grid with
  \<open>aug[j] < r_str[i] \<le> aug[j+1]\<close>: the intervals are open on the left and closed on the
  right, and only the first one is closed on the left too (at \<open>r = 0\<close>). That interval has
  a positive width, and the fraction is \<open>(r_str[i] - aug[j]) / (aug[j+1] - aug[j])\<close>.
\<close>

theorem grid_mapper_bracketing:
  assumes "sorted_wrt (<) r_aero" and "set r_aero \<subseteq> {0..1}"
    and "set r_str \<subseteq> {0..1}" and "\<not> (0 \<in> set r_aero \<and> 0 \<in> set r_str)"
    and i: "i < length r_str"
  shows "\<exists>out. GridSetup_solve_nonlinear r_aero r_str = Inr out
           \<and> length (u_idxj out) = length r_str \<and> length (u_fraction out) = length r_str
           \<and> u_idxj out ! i + 1 < length (augment r_aero)
           \<and> (augment r_aero ! (u_idxj out ! i) < r_str ! i
                \<or> (u_idxj out ! i = 0 \<and> augment r_aero ! (u_idxj out ! i) = r_str ! i))
           \<and> r_str ! i \<le> augment r_aero ! (u_idxj out ! i + 1)
           \<and> (\<forall>k. k + 1 < length (augment r_aero)
                  \<and> (augment r_aero ! k < r_str ! i \<or> (k = 0 \<and> augment r_aero ! k = r_str ! i))
                  \<and> r_str ! i \<le> augment r_aero ! (k + 1) \<longrightarrow> k = u_idxj out ! i)
           \<and> augment r_aero ! (u_idxj out ! i) < augment r_aero ! (u_idxj out ! i + 1)
           \<and> u_fraction out ! i =
               (r_str ! i - augment r_aero ! (u_idxj out ! i))
               / (augment r_aero ! (u_idxj out ! i + 1) - augment r_aero ! (u_idxj out ! i))"
    (is "\<exists>out. ?P out")
proof -
  let ?aug = "augment r_aero"
  let ?r = "r_str ! i"
  from GridSetup_returns[OF assms(3,4)] obtain out
    where ret: "GridSetup_solve_nonlinear r_aero r_str = Inr out" by blast
  then obtain ps where ps: "list_all2 (\<lambda>r p. GridSetup_station ?aug r = Inr p) r_str ps"
    and out: "out = \<lparr>u_fraction = map fst ps, u_idxj = map snd ps\<rparr>"
    by (auto simp: GridSetup_solve_nonlinear_def Let_def and_then_eq_Inr for_collect_eq_Inr)
  have len: "length ps = length r_str" using ps by (simp add: list_all2_lengthD)
  have srt: "sorted ?aug" by (rule sorted_augment[OF assms(1,2)])
  from i assms(3) have r01: "0 \<le> ?r" "?r \<le> 1" using nth_mem by fastforce+
  have nz: "\<not> (?r \<le> 0 \<and> ?aug ! 1 = 0)"
  proof
    assume a: "?r \<le> 0 \<and> ?aug ! 1 = 0"
    with r01 have "?r = 0" by simp
    with i have "0 \<in> set r_str" by (metis nth_mem)
    with assms(4) have "0 \<notin> set r_aero" by auto
    from augment_second_nonzero[OF this] a show False by simp
  qed
  from GridSetup_station_ok[OF r01(2) nz] obtain j where j:
    "j + 1 < length ?aug" "?r \<le> ?aug ! (j + 1)" "j = 0 \<or> ?aug ! j < ?r"
    "\<forall>k. 1 \<le> k \<and> k \<le> j \<longrightarrow> ?aug ! k < ?r" "?aug ! (j + 1) \<noteq> ?aug ! j"
    "GridSetup_station ?aug ?r = Inr ((?r - ?aug ! j) / (?aug ! (j + 1) - ?aug ! j), j)"
    by blast
  from list_all2_nthD[OF ps i] j(6)
  have p: "ps ! i = ((?r - ?aug ! j) / (?aug ! (j + 1) - ?aug ! j), j)" by simp
  with i len have idx: "u_idxj out ! i = j"
    and fr: "u_fraction out ! i = (?r - ?aug ! j) / (?aug ! (j + 1) - ?aug ! j)"
    by (simp_all add: out)
  have lo: "?aug ! j < ?r \<or> (j = 0 \<and> ?aug ! j = ?r)"
  proof (cases "j = 0")
    case True
    show ?thesis
    proof (cases "?r = 0")
      case True
      with \<open>j = 0\<close> show ?thesis by (simp add: augment_first)
    next
      case False
      with r01 \<open>j = 0\<close> show ?thesis by (simp add: augment_first)
    qed
  next
    case False
    with j(3) show ?thesis by simp
  qed
  have "?aug ! j \<le> ?aug ! (j + 1)"
    using sorted_nth_mono[OF srt, of j "j + 1"] j(1) by simp
  with j(5) have width: "?aug ! j < ?aug ! (j + 1)" by simp
  have uniq: "\<forall>k. k + 1 < length ?aug
                   \<and> (?aug ! k < ?r \<or> (k = 0 \<and> ?aug ! k = ?r))
                   \<and> ?r \<le> ?aug ! (k + 1) \<longrightarrow> k = j"
    using GridSetup_station_unique[OF srt j(4) j(2) j(1)] by blast
  have lens: "length (u_idxj out) = length r_str" "length (u_fraction out) = length r_str"
    using len by (simp_all add: out)
  have "?P out"
    unfolding idx using ret lens j(1,2) lo uniq width fr by blast
  then show ?thesis ..
qed

theorem grid_mapper_bracketing_witness:
  "GridSetup_solve_nonlinear [1/4, 1/2] [0, 1/4, 3/8, 1] =
     Inr \<lparr>u_fraction = [0, 1, 1/2, 1], u_idxj = [0, 0, 1, 2]\<rparr>
   \<and> augment [1/4, 1/2] ! 1 < 3/8 \<and> 3/8 \<le> augment [1/4, 1/2] ! (1 + 1)"
proof -
  have h: "sorted_wrt (<) [1/4, 1/2 :: real]" "set [1/4, 1/2 :: real] \<subseteq> {0..1}"
    "set [0, 1/4, 3/8, 1 :: real] \<subseteq> {0..1}"
    "\<not> (0 \<in> set [1/4, 1/2 :: real] \<and> 0 \<in> set [0, 1/4, 3/8, 1 :: real])"
    "2 < length [0, 1/4, 3/8, 1 :: real]"
    by simp_all
  from grid_mapper_bracketing[OF h] obtain out
    where out: "GridSetup_solve_nonlinear [1/4, 1/2] [0, 1/4, 3/8, 1] = Inr out"
      and lo: "augment [1/4, 1/2] ! (u_idxj out ! 2) < [0, 1/4, 3/8, 1] ! 2
                \<or> (u_idxj out ! 2 = 0 \<and> augment [1/4, 1/2] ! (u_idxj out ! 2) = [0, 1/4, 3/8, 1] ! 2)"
      and hi: "[0, 1/4, 3/8, 1] ! 2 \<le> augment [1/4, 1/2] ! (u_idxj out ! 2 + 1)"
    by blast
  have ev: "GridSetup_solve_nonlinear [1/4, 1/2] [0, 1/4, 3/8, 1] =
              Inr \<lparr>u_fraction = [0, 1, 1/2, 1], u_idxj = [0, 0, 1, 2]\<rparr>"
    by (simp add: GridSetup_solve_nonlinear_def GridSetup_station_def augment_def getitem_def
        fdiv_def upt_rec)
  from out have "out = \<lparr>u_fraction = [0, 1, 1/2, 1], u_idxj = [0, 0, 1, 2]\<rparr>"
    unfolding ev by simp
  then have idx: "u_idxj out = [0, 0, 1, 2]" by simp
  from lo hi have "augment [1/4, 1/2] ! 1 < 3/8 \<and> 3/8 \<le> augment [1/4, 1/2] ! (1 + 1)"
    unfolding idx by (simp add: augment_def)
  with ev show ?thesis by simp
qed

text \<open>
  The claim as stated (\<open>aug[j] \<le> r_str[i] < aug[j+1]\<close>) fails where a structural point
  lies on an aerodynamic point, as most points of the reference grids of \<open>main.py\<close> do:
  for the grids \<open>[0.5]\<close> and \<open>[0.5]\<close> the index assigned is \<open>0\<close> and the fraction \<open>1\<close>,
  while the interval the claim describes is the one of index \<open>1\<close>.
\<close>

theorem grid_mapper_bracketing_counterexample:
  "GridSetup_solve_nonlinear [1/2] [1/2] = Inr \<lparr>u_fraction = [1], u_idxj = [0]\<rparr>
   \<and> \<not> (1/2 < augment [1/2] ! (0 + 1))
   \<and> augment [1/2] ! 1 \<le> 1/2 \<and> 1/2 < augment [1/2] ! (1 + 1)"
  by (simp add: GridSetup_solve_nonlinear_def GridSetup_station_def augment_def getitem_def
      fdiv_def upt_rec)




subsection \<open>Structural solver\<close>

text \<open>
  C8. In \<open>RotorWithpBEAM.principalCS\<close> the two sequential assignments
  \<open>EIxx = copy(EIyy); EIyy = copy(EIxx)\<close> leave both \<open>EIxx\<close> and \<open>EIyy\<close> equal to the input
  \<open>EIyy\<close>, and likewise both elastic-center offsets equal to the input \<open>y_ec_str\<close>. After
  the translation to the elastic center \<open>EIyy - EIxx\<close> is exactly zero, so the angle
  \<open>\<alpha> = \<onehalf> atan2(2 EIxy, 0)\<close> is \<open>\<pi>/4\<close> or \<open>-\<pi>/4\<close> (by the sign of the translated \<open>EIxy\<close>)
  when the translated \<open>EIxy\<close> is not zero, and \<open>0\<close> when it is. The values returned follow:
  they do not depend on the inputs \<open>EIxx\<close> and \<open>x_ec_str\<close>.
\<close>

theorem principalCS_swap_collapses:
  "principalCS_rename EIyy EIxx y_ec_str x_ec_str EA EIxy =
     \<lparr>l_EIxx = EIyy, l_EIyy = EIyy, l_x_ec_str = y_ec_str, l_y_ec_str = y_ec_str,
      l_EA = EA, l_EIxy = EIxy\<rparr>
   \<and> l_EIyy (principalCS_translate (principalCS_rename EIyy EIxx y_ec_str x_ec_str EA EIxy))
       - l_EIxx (principalCS_translate (principalCS_rename EIyy EIxx y_ec_str x_ec_str EA EIxy)) = 0
   \<and> l_EIxy (principalCS_translate (principalCS_rename EIyy EIxx y_ec_str x_ec_str EA EIxy))
       = EIxy - y_ec_str * y_ec_str * EA
   \<and> principalCS_alpha (principalCS_translate (principalCS_rename EIyy EIxx y_ec_str x_ec_str EA EIxy))
       = (if 0 < EIxy - y_ec_str * y_ec_str * EA then pi / 4
          else if EIxy - y_ec_str * y_ec_str * EA < 0 then - pi / 4
          else 0)
   \<and> principalCS EIyy EIxx y_ec_str x_ec_str EA EIxy =
       (EIyy - y_ec_str\<^sup>2 * EA - \<bar>EIxy - y_ec_str * y_ec_str * EA\<bar>,
        EIyy - y_ec_str\<^sup>2 * EA + \<bar>EIxy - y_ec_str * y_ec_str * EA\<bar>,
        EA,
        if EIxy - y_ec_str * y_ec_str * EA = 0 then 1 else sqrt 2 / 2,
        if 0 < EIxy - y_ec_str * y_ec_str * EA then sqrt 2 / 2
        else if EIxy - y_ec_str * y_ec_str * EA < 0 then - sqrt 2 / 2 else 0)"
proof -
  let ?l = "principalCS_translate (principalCS_rename EIyy EIxx y_ec_str x_ec_str EA EIxy)"
  let ?t = "EIxy - y_ec_str * y_ec_str * EA"
  have ren: "principalCS_rename EIyy EIxx y_ec_str x_ec_str EA EIxy =
     \<lparr>l_EIxx = EIyy, l_EIyy = EIyy, l_x_ec_str = y_ec_str, l_y_ec_str = y_ec_str,
      l_EA = EA, l_EIxy = EIxy\<rparr>"
    by (simp add: principalCS_rename_def)
  have xx: "l_EIxx ?l = EIyy - y_ec_str\<^sup>2 * EA" and yy: "l_EIyy ?l = EIyy - y_ec_str\<^sup>2 * EA"
    and xy: "l_EIxy ?l = ?t" and ea: "l_EA ?l = EA"
    by (simp_all add: ren principalCS_translate_def)
  have alpha: "principalCS_alpha ?l = (if 0 < ?t then pi / 4 else if ?t < 0 then - pi / 4 else 0)"
    by (simp add: principalCS_alpha_def xx yy xy arctan2_def)
  have t4: "tan (pi / 4) = 1" "tan (- pi / 4) = -1"
    using tan_45 tan_minus[of "pi / 4"] by simp_all
  have c4: "cos (- pi / 4) = sqrt 2 / 2" "sin (- pi / 4) = - sqrt 2 / 2"
    using cos_minus[of "pi / 4"] sin_minus[of "pi / 4"] by (simp_all add: cos_45 sin_45)
  have res: "principalCS EIyy EIxx y_ec_str x_ec_str EA EIxy =
       (EIyy - y_ec_str\<^sup>2 * EA - \<bar>?t\<bar>, EIyy - y_ec_str\<^sup>2 * EA + \<bar>?t\<bar>, EA,
        if ?t = 0 then 1 else sqrt 2 / 2,
        if 0 < ?t then sqrt 2 / 2 else if ?t < 0 then - sqrt 2 / 2 else 0)"
    unfolding principalCS_def Let_def alpha xx yy xy ea
    by (simp add: t4 c4 cos_45 sin_45)
  from ren xx yy xy alpha res show ?thesis by simp
qed

lemma math_log_eq_Inr: "math_log x = Inr v \<longleftrightarrow> 0 < x \<and> v = ln x"
  by (auto simp: math_log_def)

lemma np_log_eq_Inr: "np_log x = Inr v \<longleftrightarrow> 0 < x \<and> v = ln x"
  by (auto simp: np_log_def)

lemma damage_eq_Inr:
  "damage Mx My xu yu xl yl EI11 EI22 EA ca sa emax eta m N = Inr (dU, dL) \<longleftrightarrow>
     (\<exists>sU sL. damage_strains Mx My xu yu xl yl EI11 EI22 EA ca sa = Inr (sU, sL)
        \<and> 0 < N \<and> 0 < emax \<and> 0 < eta \<and> sU \<noteq> 0 \<and> sL \<noteq> 0
        \<and> dU = ln N - m * (ln emax - ln eta - ln \<bar>sU\<bar>)
        \<and> dL = ln N - m * (ln emax - ln eta - ln \<bar>sL\<bar>))"
  by (auto simp: damage_def Let_def and_then_eq_Inr math_log_eq_Inr np_log_eq_Inr)

lemma strain_at_eq_Inr:
  "strain_at M1 M2 Fz EI11 EI22 EA x y = Inr s \<longleftrightarrow>
     EI11 \<noteq> 0 \<and> EI22 \<noteq> 0 \<and> EA \<noteq> 0 \<and> s = - (M1 / EI11 * y - M2 / EI22 * x + Fz / EA)"
  by (auto simp: strain_at_def and_then_eq_Inr fdiv_eq_Inr)

lemma strain_at_neg:
  assumes "strain_at M1 M2 0 EI11 EI22 EA x y = Inr s"
  shows "strain_at (- M1) (- M2) 0 EI11 EI22 EA x y = Inr (- s)"
  using assms by (auto simp: strain_at_eq_Inr)

lemma damage_strains_unfold:
  "damage_strains Mx My xu yu xl yl EI11 EI22 EA ca sa =
     and_then (strain_at (My * ca + Mx * sa) (- My * sa + Mx * ca) 0 EI11 EI22 EA
                 (yu * ca + xu * sa) (- yu * sa + xu * ca)) (\<lambda>strainU.
     and_then (strain_at (My * ca + Mx * sa) (- My * sa + Mx * ca) 0 EI11 EI22 EA
                 (yl * ca + xl * sa) (- yl * sa + xl * ca)) (\<lambda>strainL.
       Inr (strainU, strainL)))"
  by (simp add: damage_strains_def Let_def)

lemma damage_strains_flip:
  assumes "damage_strains Mx My xu yu xl yl EI11 EI22 EA ca sa = Inr (sU, sL)"
  shows "damage_strains (- Mx) (- My) xu yu xl yl EI11 EI22 EA ca sa = Inr (- sU, - sL)"
proof -
  let ?M1 = "My * ca + Mx * sa" and ?M2 = "- My * sa + Mx * ca"
  from assms have
    U: "strain_at ?M1 ?M2 0 EI11 EI22 EA (yu * ca + xu * sa) (- yu * sa + xu * ca) = Inr sU"
    and L: "strain_at ?M1 ?M2 0 EI11 EI22 EA (yl * ca + xl * sa) (- yl * sa + xl * ca) = Inr sL"
    unfolding damage_strains_unfold by (auto simp: and_then_eq_Inr)
  have eq: "damage_strains (- Mx) (- My) xu yu xl yl EI11 EI22 EA ca sa =
     and_then (strain_at (- ?M1) (- ?M2) 0 EI11 EI22 EA
                 (yu * ca + xu * sa) (- yu * sa + xu * ca)) (\<lambda>strainU.
     and_then (strain_at (- ?M1) (- ?M2) 0 EI11 EI22 EA
                 (yl * ca + xl * sa) (- yl * sa + xl * ca)) (\<lambda>strainL.
       Inr (strainU, strainL)))"
    by (simp add: damage_strains_unfold)
  show ?thesis
    unfolding eq by (simp only: strain_at_neg[OF U] strain_at_neg[OF L] and_then_Inr)
qed



subsection \<open>Geometry\<close>



subsection \<open>Cross-section properties\<close>

lemma math_sqrt_eq_Inr: "math_sqrt x = Inr v \<longleftrightarrow> 0 \<le> x \<and> v = sqrt x"
  by (auto simp: math_sqrt_def)

lemma panelBucklingStrain_station_Inr:
  assumes "panelBucklingStrain_station cM eE h chord CS_list sector_idx_strain i = Inr e"
  shows "\<exists>A B D totalHeight E.
           i < length CS_list \<and> i < length sector_idx_strain \<and> i < length chord
         \<and> sector_idx_strain ! i + 1 < length (cs_loc (CS_list ! i))
         \<and> cM h (CS_list ! i) (sector_idx_strain ! i) = Inr (A, B, D, totalHeight)
         \<and> eE h (CS_list ! i) (sector_idx_strain ! i) = Inr E
         \<and> chord ! i * (cs_loc (CS_list ! i) ! (sector_idx_strain ! i + 1)
                        - cs_loc (CS_list ! i) ! (sector_idx_strain ! i)) \<noteq> 0
         \<and> 0 \<le> D 0 0 * D 1 1 \<and> totalHeight \<noteq> 0 \<and> E \<noteq> 0
         \<and> e = - (2 * (pi / (chord ! i * (cs_loc (CS_list ! i) ! (sector_idx_strain ! i + 1)
                                          - cs_loc (CS_list ! i) ! (sector_idx_strain ! i))))\<^sup>2
                    * (sqrt (D 0 0 * D 1 1) + (D 0 1 + 2 * D 2 2)))
               / (totalHeight * E)"
  using assms
  by (auto simp: panelBucklingStrain_station_def Let_def and_then_eq_Inr getitem_eq_Inr
      fdiv_eq_Inr math_sqrt_eq_Inr)



subsection \<open>Composite section resizer\<close>

lemma raised_in_eq_Inr: "raised_in h m = Inr v \<longleftrightarrow> m = Inr v"
  by (cases m) (simp_all add: raised_in_def)

lemma for_each_append:
  "for_each body (xs @ ys) s = and_then (for_each body xs s) (for_each body ys)"
proof (induction xs arbitrary: s)
  case Nil
  show ?case by simp
next
  case (Cons x xs)
  show ?case by (cases "body x s") (simp_all add: Cons.IH)
qed

lemma upt_split_at:
  assumes "i < n"
  shows "[0..<n] = [0..<i] @ i # [Suc i..<n]"
proof -
  from assms have "[0..<n] = [0..<i] @ [i..<n]"
    using upt_add_eq_append[of 0 i "n - i"] by simp
  with assms show ?thesis by (simp add: upt_conv_Cons)
qed

lemma for_each_upt_split:
  assumes "for_each body [0..<n] h = Inr h'" and "i < n"
  shows "\<exists>g1 g2. for_each body [0..<i] h = Inr g1 \<and> body i g1 = Inr g2
                \<and> for_each body [Suc i..<n] g2 = Inr h'"
  using assms(1) unfolding upt_split_at[OF assms(2)] for_each_append
  by (auto simp: and_then_eq_Inr)

lemma for_each_frame:
  assumes "for_each body xs h = Inr h'"
    and "\<And>x g g'. x \<in> set xs \<Longrightarrow> body x g = Inr g'
           \<Longrightarrow> length g' = length g \<and> (\<forall>a. a \<notin> A x \<longrightarrow> g' ! a = g ! a)"
  shows "length h' = length (h::heap) \<and> (\<forall>a. (\<forall>x\<in>set xs. a \<notin> A x) \<longrightarrow> h' ! a = h ! a)"
  using assms
proof (induction xs arbitrary: h)
  case Nil
  then show ?case by simp
next
  case (Cons x xs)
  from Cons.prems(1) obtain g where g: "body x h = Inr g" and rest: "for_each body xs g = Inr h'"
    by (auto simp: and_then_eq_Inr)
  from Cons.prems(2)[OF _ g] have st: "length g = length h" "\<forall>a. a \<notin> A x \<longrightarrow> g ! a = h ! a"
    by simp_all
  have "length h' = length g \<and> (\<forall>a. (\<forall>x\<in>set xs. a \<notin> A x) \<longrightarrow> h' ! a = g ! a)"
    by (rule Cons.IH[OF rest]) (use Cons.prems(2) in auto)
  with st show ?case by auto
qed

lemma for_each_station_effect:
  assumes run: "for_each body [0..<n] h = Inr h'" and i: "i < n"
    and frame: "\<And>x g g'. x < n \<Longrightarrow> body x g = Inr g'
           \<Longrightarrow> length g' = length g \<and> (\<forall>a. a \<notin> A x \<longrightarrow> g' ! a = g ! a)"
    and disj: "\<And>x. x < n \<Longrightarrow> x \<noteq> i \<Longrightarrow> A x \<inter> A i = {}"
  shows "\<exists>g1 g2. body i g1 = Inr g2 \<and> length g1 = length (h::heap) \<and> length g2 = length h
           \<and> length h' = length h \<and> (\<forall>a\<in>A i. g1 ! a = h ! a \<and> h' ! a = g2 ! a)"
proof -
  from for_each_upt_split[OF run i] obtain g1 g2 where
    a: "for_each body [0..<i] h = Inr g1" and b: "body i g1 = Inr g2"
    and c: "for_each body [Suc i..<n] g2 = Inr h'" by blast
  have fa: "length g1 = length h \<and> (\<forall>a. (\<forall>x\<in>set [0..<i]. a \<notin> A x) \<longrightarrow> g1 ! a = h ! a)"
  proof (rule for_each_frame[OF a])
    fix x g g' assume "x \<in> set [0..<i]" "body x g = Inr g'"
    with i have "x < n" by simp
    from frame[OF this \<open>body x g = Inr g'\<close>]
    show "length g' = length g \<and> (\<forall>a. a \<notin> A x \<longrightarrow> g' ! a = g ! a)" .
  qed
  have fb: "length g2 = length g1" using frame[OF i b] by simp
  have fc: "length h' = length g2 \<and> (\<forall>a. (\<forall>x\<in>set [Suc i..<n]. a \<notin> A x) \<longrightarrow> h' ! a = g2 ! a)"
  proof (rule for_each_frame[OF c])
    fix x g g' assume "x \<in> set [Suc i..<n]" "body x g = Inr g'"
    then have "x < n" by simp
    from frame[OF this \<open>body x g = Inr g'\<close>]
    show "length g' = length g \<and> (\<forall>a. a \<notin> A x \<longrightarrow> g' ! a = g ! a)" .
  qed
  have "g1 ! a = h ! a \<and> h' ! a = g2 ! a" if "a \<in> A i" for a
  proof -
    have other: "a \<notin> A x" if "x < n" "x \<noteq> i" for x
      using disj[OF that] \<open>a \<in> A i\<close> by blast
    have "\<forall>x\<in>set [0..<i]. a \<notin> A x" using other i by simp
    moreover have "\<forall>x\<in>set [Suc i..<n]. a \<notin> A x" using other by simp
    ultimately show ?thesis using fa fc by blast
  qed
  with b fa fb fc show ?thesis by (intro exI[of _ g1] exI[of _ g2]) simp
qed

lemma length_imul: "length (imul h a c) = length h"
  by (simp add: imul_def)

lemma imul_nth_same: "a < length h \<Longrightarrow> imul h a c ! a = map (\<lambda>x. x * c) (h ! a)"
  by (simp add: imul_def)

lemma imul_nth_other: "b \<noteq> a \<Longrightarrow> imul h a c ! b = h ! b"
  by (simp add: imul_def)

lemma fold_imul_length: "length (fold (\<lambda>a h. imul h a c) as h) = length h"
  by (induction as arbitrary: h) (simp_all add: length_imul)

lemma fold_imul_other: "b \<notin> set as \<Longrightarrow> fold (\<lambda>a h. imul h a c) as h ! b = h ! b"
  by (induction as arbitrary: h) (auto simp: imul_nth_other)

lemma fold_imul_same:
  assumes "distinct as" "b \<in> set as" "b < length h"
  shows "fold (\<lambda>a h. imul h a c) as h ! b = map (\<lambda>x. x * c) (h ! b)"
  using assms
proof (induction as arbitrary: h)
  case Nil
  then show ?case by simp
next
  case (Cons a as)
  show ?case
  proof (cases "b = a")
    case True
    with Cons.prems have "b \<notin> set as" by simp
    with True Cons.prems(3) show ?thesis
      by (simp add: fold_imul_other imul_nth_same)
  next
    case False
    with Cons.prems have "b \<in> set as" "distinct as" "b < length (imul h a c)"
      by (simp_all add: length_imul)
    from Cons.IH[OF this(2,1,3)] False show ?thesis by (simp add: imul_nth_other)
  qed
qed

lemma sum_list_scaled: "sum_list (map (\<lambda>x. x * c) xs) = sum_list xs * (c::real)"
  by (induction xs) (simp_all add: algebra_simps)

lemma mycopy_facts:
  assumes "mycopy h cs = (h', cs')"
  shows "length h' = length h + length (cs_t cs)"
    and "cs_t cs' = [length h..<length h']"
    and "cs' = cs\<lparr>cs_t := cs_t cs'\<rparr>"
    and "\<forall>a<length h. h' ! a = h ! a"
    and "\<forall>k<length (cs_t cs). h' ! (length h + k) = h ! (cs_t cs ! k)"
  using assms by (auto simp: mycopy_def nth_append)

lemma copy_of_fresh:
  assumes mc: "mycopy h cs = (h', cs')"
    and pre: "\<forall>a<length h0. h ! a = h0 ! a" and le: "length h0 \<le> length h"
    and inh: "\<forall>a\<in>set (cs_t cs). a < length h0"
    and later: "length h' \<le> length h''" "\<forall>a<length h'. h'' ! a = h' ! a"
  shows "copy_of h0 cs h'' cs'"
proof -
  note f = mycopy_facts[OF mc]
  have "h'' ! (cs_t cs' ! k) = h0 ! (cs_t cs ! k)" if k: "k < length (cs_t cs)" for k
  proof -
    from k f(1) have lt: "length h + k < length h'" by simp
    from k f(1,2) have "cs_t cs' ! k = length h + k" by simp
    moreover from later(2) lt have "h'' ! (length h + k) = h' ! (length h + k)" by simp
    moreover from f(5) k have "h' ! (length h + k) = h ! (cs_t cs ! k)" by simp
    moreover from inh k have "cs_t cs ! k < length h0" by simp
    with pre have "h ! (cs_t cs ! k) = h0 ! (cs_t cs ! k)" by simp
    ultimately show ?thesis by simp
  qed
  moreover have "length (cs_t cs') = length (cs_t cs)" using f(1,2) by simp
  ultimately show ?thesis using f(3) by (simp add: copy_of_def)
qed

lemma copy_of_later:
  assumes "copy_of h0 cs h cs'" and "set (cs_t cs') \<subseteq> {..<length h}"
    and "\<forall>a<length h. h' ! a = h ! a"
  shows "copy_of h0 cs h' cs'"
proof -
  have "h' ! (cs_t cs' ! k) = h ! (cs_t cs' ! k)" if "k < length (cs_t cs)" for k
  proof -
    from that assms(1) have "k < length (cs_t cs')" by (simp add: copy_of_def)
    then have "cs_t cs' ! k \<in> set (cs_t cs')" by simp
    with assms(2) have "cs_t cs' ! k < length h" by auto
    with assms(3) show ?thesis by simp
  qed
  with assms(1) show ?thesis by (simp add: copy_of_def)
qed


lemma upt_join: "i \<le> j \<Longrightarrow> j \<le> k \<Longrightarrow> [i..<j] @ [j..<k] = [i..<k]"
  using upt_add_eq_append[of i j "k - j"] by simp

lemma copy_station_Inr:
  assumes "copy_station U L W m (h, out) = Inr s'"
  shows "\<exists>ha up hb lo hc we.
           m < length U \<and> m < length L \<and> m < length W
         \<and> mycopy h (U ! m) = (ha, up) \<and> mycopy ha (L ! m) = (hb, lo)
         \<and> mycopy hb (W ! m) = (hc, we)
         \<and> s' = (hc, \<lparr>u_upperCSOut = u_upperCSOut out @ [up],
                       u_lowerCSOut = u_lowerCSOut out @ [lo],
                       u_websCSOut = u_websCSOut out @ [we]\<rparr>)"
  using assms
  by (cases out)
     (auto simp: copy_station_def Let_def and_then_eq_Inr raised_in_eq_Inr getitem_eq_Inr
        split: prod.splits)

lemma copy_station_step:
  assumes inv: "copies_inv h0 U L W m s"
    and step: "copy_station U L W m s = Inr s'"
    and wf: "sections_in_heap h0 U" "sections_in_heap h0 L" "sections_in_heap h0 W"
  shows "copies_inv h0 U L W (Suc m) s'"
proof -
  obtain h out where s: "s = (h, out)" by (cases s)
  from copy_station_Inr[OF step[unfolded s]] obtain ha up hb lo hc we where
    m: "m < length U" "m < length L" "m < length W"
    and ca: "mycopy h (U ! m) = (ha, up)" and cb: "mycopy ha (L ! m) = (hb, lo)"
    and cc: "mycopy hb (W ! m) = (hc, we)"
    and s': "s' = (hc, \<lparr>u_upperCSOut = u_upperCSOut out @ [up],
                       u_lowerCSOut = u_lowerCSOut out @ [lo],
                       u_websCSOut = u_websCSOut out @ [we]\<rparr>)"
    by blast
  define out' where "out' = \<lparr>u_upperCSOut = u_upperCSOut out @ [up],
                       u_lowerCSOut = u_lowerCSOut out @ [lo],
                       u_websCSOut = u_websCSOut out @ [we]\<rparr>"
  from inv have lens: "length (u_upperCSOut out) = m" "length (u_lowerCSOut out) = m"
      "length (u_websCSOut out) = m"
    and le: "length h0 \<le> length h" and pre: "\<forall>a<length h0. h ! a = h0 ! a"
    and dist: "distinct (concat (map (station_addrs out) [0..<m]))"
    and sub: "\<forall>i<m. set (station_addrs out i) \<subseteq> {length h0..<length h}"
    and cp: "\<forall>i<m. copy_of h0 (U ! i) h (u_upperCSOut out ! i)
              \<and> copy_of h0 (L ! i) h (u_lowerCSOut out ! i)
              \<and> copy_of h0 (W ! i) h (u_websCSOut out ! i)"
    by (simp_all add: copies_inv_def s)
  note fa = mycopy_facts[OF ca] and fb = mycopy_facts[OF cb] and fc = mycopy_facts[OF cc]
  have len: "length h \<le> length ha" "length ha \<le> length hb" "length hb \<le> length hc"
    using fa(1) fb(1) fc(1) by simp_all
  have pre_cb: "\<forall>a<length hb. hc ! a = hb ! a" using fc(4) .
  have pre_ca: "\<forall>a<length ha. hc ! a = ha ! a" using fb(4) fc(4) len by simp
  have pre_c: "\<forall>a<length h. hc ! a = h ! a" using fa(4) pre_ca len by simp
  have pre_a0: "\<forall>a<length h0. ha ! a = h0 ! a" using fa(4) pre le by simp
  have pre_b0: "\<forall>a<length h0. hb ! a = h0 ! a" using fb(4) pre_a0 le len by simp
  have pre_c0: "\<forall>a<length h0. hc ! a = h0 ! a" using pre_c pre le by simp
  have old: "station_addrs out' i = station_addrs out i"
    and old_u: "u_upperCSOut out' ! i = u_upperCSOut out ! i"
    and old_l: "u_lowerCSOut out' ! i = u_lowerCSOut out ! i"
    and old_w: "u_websCSOut out' ! i = u_websCSOut out ! i" if "i < m" for i
    using that lens by (simp_all add: station_addrs_def out'_def nth_append)
  have new_u: "u_upperCSOut out' ! m = up" and new_l: "u_lowerCSOut out' ! m = lo"
    and new_w: "u_websCSOut out' ! m = we"
    using lens by (simp_all add: out'_def nth_append)
  have new: "station_addrs out' m = [length h..<length hc]"
    unfolding station_addrs_def new_u new_l new_w fa(2) fb(2) fc(2)
    using len by (simp add: upt_join)
  have map_old: "map (station_addrs out') [0..<m] = map (station_addrs out) [0..<m]"
    using old by simp
  have old_lt: "\<forall>a\<in>set (concat (map (station_addrs out) [0..<m])). a < length h"
    using sub by fastforce
  have "set (concat (map (station_addrs out) [0..<m])) \<inter> set [length h..<length hc] = {}"
    using old_lt by fastforce
  with dist have d: "distinct (concat (map (station_addrs out') [0..<Suc m]))"
    by (simp add: map_old new)
  have sb: "\<forall>i<Suc m. set (station_addrs out' i) \<subseteq> {length h0..<length hc}"
  proof (intro allI impI)
    fix i assume "i < Suc m"
    show "set (station_addrs out' i) \<subseteq> {length h0..<length hc}"
    proof (cases "i = m")
      case True
      with le show ?thesis by (auto simp: new)
    next
      case False
      with \<open>i < Suc m\<close> have i: "i < m" by simp
      with sub len show ?thesis by (fastforce simp: old[OF i])
    qed
  qed
  have inh: "\<forall>a\<in>set (cs_t (U ! m)). a < length h0" "\<forall>a\<in>set (cs_t (L ! m)). a < length h0"
    "\<forall>a\<in>set (cs_t (W ! m)). a < length h0"
    using wf m nth_mem unfolding sections_in_heap_def by blast+
  have cu: "copy_of h0 (U ! m) hc up"
    by (rule copy_of_fresh[OF ca pre le inh(1) _ pre_ca]) (use len in simp)
  have cl: "copy_of h0 (L ! m) hc lo"
    by (rule copy_of_fresh[OF cb pre_a0 _ inh(2) len(3) pre_cb]) (use le len in simp)
  have cw: "copy_of h0 (W ! m) hc we"
    by (rule copy_of_fresh[OF cc pre_b0 _ inh(3)]) (use le len in simp_all)
  have cps: "copy_of h0 (U ! i) hc (u_upperCSOut out' ! i)
              \<and> copy_of h0 (L ! i) hc (u_lowerCSOut out' ! i)
              \<and> copy_of h0 (W ! i) hc (u_websCSOut out' ! i)" if "i < Suc m" for i
  proof (cases "i = m")
    case True
    with cu cl cw show ?thesis by (simp add: new_u new_l new_w)
  next
    case False
    with that have i: "i < m" by simp
    from sub i have lt: "set (station_addrs out i) \<subseteq> {..<length h}" by fastforce
    then have "set (cs_t (u_upperCSOut out ! i)) \<subseteq> {..<length h}"
      "set (cs_t (u_lowerCSOut out ! i)) \<subseteq> {..<length h}"
      "set (cs_t (u_websCSOut out ! i)) \<subseteq> {..<length h}"
      by (simp_all add: station_addrs_def)
    note in_h = this
    from cp i have c: "copy_of h0 (U ! i) h (u_upperCSOut out ! i)"
      "copy_of h0 (L ! i) h (u_lowerCSOut out ! i)" "copy_of h0 (W ! i) h (u_websCSOut out ! i)"
      by simp_all
    show ?thesis
      unfolding old_u[OF i] old_l[OF i] old_w[OF i]
      using copy_of_later[OF c(1) in_h(1) pre_c] copy_of_later[OF c(2) in_h(2) pre_c]
        copy_of_later[OF c(3) in_h(3) pre_c] by simp
  qed
  have "length h0 \<le> length hc" using le len by simp
  with d sb cps pre_c0 m lens show ?thesis
    unfolding copies_inv_def s' out'_def[symmetric]
    by (simp add: out'_def)
qed


lemma copy_loop_inv:
  assumes "for_each (copy_station U L W) [0..<n]
             (h0, \<lparr>u_upperCSOut = [], u_lowerCSOut = [], u_websCSOut = []\<rparr>) = Inr s"
    and wf: "sections_in_heap h0 U" "sections_in_heap h0 L" "sections_in_heap h0 W"
  shows "copies_inv h0 U L W n s"
  using assms(1)
proof (induction n arbitrary: s)
  case 0
  then show ?case by (auto simp: copies_inv_def)
next
  case (Suc n)
  from Suc.prems obtain s1 where
    a: "for_each (copy_station U L W) [0..<n]
          (h0, \<lparr>u_upperCSOut = [], u_lowerCSOut = [], u_websCSOut = []\<rparr>) = Inr s1"
    and b: "copy_station U L W n s1 = Inr s"
    by (auto simp: for_each_append and_then_eq_Inr)
  from copy_station_step[OF Suc.IH[OF a] b wf] show ?case .
qed

lemma distinct_concat_upt:
  assumes "distinct (concat (map f [0..<n]))"
  shows "(\<forall>i<n. distinct (f i)) \<and> (\<forall>i<n. \<forall>j<n. i \<noteq> j \<longrightarrow> set (f i) \<inter> set (f j) = {})"
  using assms
proof (induction n)
  case 0
  then show ?case by simp
next
  case (Suc n)
  from Suc.prems have d: "distinct (concat (map f [0..<n]))" "distinct (f n)"
    and u: "(\<Union>a\<in>{0..<n}. set (f a)) \<inter> set (f n) = {}"
    by auto
  have x: "\<forall>i<n. set (f i) \<inter> set (f n) = {}"
  proof (intro allI impI)
    fix i assume "i < n"
    then have "set (f i) \<subseteq> (\<Union>a\<in>{0..<n}. set (f a))" by auto
    with u show "set (f i) \<inter> set (f n) = {}" by blast
  qed
  from Suc.IH[OF d(1)] have ih: "\<forall>i<n. distinct (f i)"
    "\<forall>i<n. \<forall>j<n. i \<noteq> j \<longrightarrow> set (f i) \<inter> set (f j) = {}" by simp_all
  have "distinct (f i)" if "i < Suc n" for i
    using that ih(1) d(2) by (cases "i = n") auto
  moreover have "set (f i) \<inter> set (f j) = {}"
    if ij: "i < Suc n" "j < Suc n" "i \<noteq> j" for i j
  proof -
    consider "i < n" "j < n" | "i = n" "j < n" | "i < n" "j = n"
      using ij by linarith
    then show ?thesis
    proof cases
      case 1 with ih(2) ij(3) show ?thesis by simp
    next
      case 2 with x show ?thesis by blast
    next
      case 3 with x show ?thesis by blast
    qed
  qed
  ultimately show ?case by blast
qed

lemma scale_station_Inr:
  assumes "scale_station chord_str chord_str_ref out i g = Inr g'"
  shows "i < length chord_str \<and> i < length chord_str_ref \<and> chord_str_ref ! i \<noteq> 0
       \<and> i < length (u_upperCSOut out) \<and> i < length (u_lowerCSOut out)
       \<and> i < length (u_websCSOut out)
       \<and> g' = fold (\<lambda>a h. imul h a (chord_str ! i / chord_str_ref ! i)) (station_addrs out i) g"
  using assms
  by (auto simp: scale_station_def Let_def and_then_eq_Inr raised_in_eq_Inr getitem_eq_Inr
      fdiv_eq_Inr scale_thicknesses_def station_addrs_def)

lemma scale_station_effect:
  assumes run: "scale_station chord_str chord_str_ref out i g = Inr g'"
  shows "length g' = length g"
    and "\<forall>a. a \<notin> set (station_addrs out i) \<longrightarrow> g' ! a = g ! a"
    and "distinct (station_addrs out i) \<Longrightarrow> set (station_addrs out i) \<subseteq> {..<length g}
         \<Longrightarrow> \<forall>a\<in>set (station_addrs out i).
               g' ! a = map (\<lambda>x. x * (chord_str ! i / chord_str_ref ! i)) (g ! a)"
proof -
  from scale_station_Inr[OF run]
  have g': "g' = fold (\<lambda>a h. imul h a (chord_str ! i / chord_str_ref ! i)) (station_addrs out i) g"
    by simp
  show "length g' = length g" by (simp add: g' fold_imul_length)
  show "\<forall>a. a \<notin> set (station_addrs out i) \<longrightarrow> g' ! a = g ! a"
    by (simp add: g' fold_imul_other)
  assume d: "distinct (station_addrs out i)" and sub: "set (station_addrs out i) \<subseteq> {..<length g}"
  show "\<forall>a\<in>set (station_addrs out i).
               g' ! a = map (\<lambda>x. x * (chord_str ! i / chord_str_ref ! i)) (g ! a)"
  proof
    fix a assume a: "a \<in> set (station_addrs out i)"
    with sub have "a < length g" by auto
    from fold_imul_same[OF d a this] show
      "g' ! a = map (\<lambda>x. x * (chord_str ! i / chord_str_ref ! i)) (g ! a)"
      by (simp add: g')
  qed
qed


lemma resize_station_Inr:
  assumes "resize_station spar te sparT teT out i g = Inr g'"
  shows "\<exists>a b a' b'.
           i < length spar \<and> i < length te \<and> i < length sparT \<and> i < length teT
         \<and> i < length (u_upperCSOut out) \<and> i < length (u_lowerCSOut out)
         \<and> spar ! i < length (cs_t (u_upperCSOut out ! i))
         \<and> te ! i < length (cs_t (u_upperCSOut out ! i))
         \<and> spar ! i < length (cs_t (u_lowerCSOut out ! i))
         \<and> te ! i < length (cs_t (u_lowerCSOut out ! i))
         \<and> a = cs_t (u_upperCSOut out ! i) ! (spar ! i)
         \<and> b = cs_t (u_upperCSOut out ! i) ! (te ! i)
         \<and> a' = cs_t (u_lowerCSOut out ! i) ! (spar ! i)
         \<and> b' = cs_t (u_lowerCSOut out ! i) ! (te ! i)
         \<and> sum_list (g ! a) \<noteq> 0 \<and> sum_list (g ! b) \<noteq> 0
         \<and> g' = imul (imul (imul (imul g a (sparT ! i / sum_list (g ! a)))
                                a' (sparT ! i / sum_list (g ! a)))
                          b (teT ! i / sum_list (g ! b)))
                    b' (teT ! i / sum_list (g ! b))"
  using assms
  by (auto simp: resize_station_def Let_def and_then_eq_Inr raised_in_eq_Inr getitem_eq_Inr
      fdiv_eq_Inr)

lemma resize_station_frame:
  assumes run: "resize_station spar te sparT teT out i g = Inr g'"
  shows "length g' = length g"
    and "\<forall>x. x \<notin> set (station_addrs out i) \<longrightarrow> g' ! x = g ! x"
proof -
  from resize_station_Inr[OF run] obtain a b a' b' where
    r: "spar ! i < length (cs_t (u_upperCSOut out ! i))"
      "te ! i < length (cs_t (u_upperCSOut out ! i))"
      "spar ! i < length (cs_t (u_lowerCSOut out ! i))"
      "te ! i < length (cs_t (u_lowerCSOut out ! i))"
    and ad: "a = cs_t (u_upperCSOut out ! i) ! (spar ! i)"
      "b = cs_t (u_upperCSOut out ! i) ! (te ! i)"
      "a' = cs_t (u_lowerCSOut out ! i) ! (spar ! i)"
      "b' = cs_t (u_lowerCSOut out ! i) ! (te ! i)"
    and g': "g' = imul (imul (imul (imul g a (sparT ! i / sum_list (g ! a)))
                                a' (sparT ! i / sum_list (g ! a)))
                          b (teT ! i / sum_list (g ! b)))
                    b' (teT ! i / sum_list (g ! b))"
    by blast
  show "length g' = length g" by (simp add: g' length_imul)
  have mem: "a \<in> set (station_addrs out i)" "b \<in> set (station_addrs out i)"
    "a' \<in> set (station_addrs out i)" "b' \<in> set (station_addrs out i)"
    using r by (simp_all add: ad station_addrs_def)
  show "\<forall>x. x \<notin> set (station_addrs out i) \<longrightarrow> g' ! x = g ! x"
  proof (intro allI impI)
    fix x assume "x \<notin> set (station_addrs out i)"
    with mem have "x \<noteq> a" "x \<noteq> b" "x \<noteq> a'" "x \<noteq> b'" by auto
    then show "g' ! x = g ! x" by (simp add: g' imul_nth_other)
  qed
qed

lemma resize_station_effect:
  assumes run: "resize_station spar te sparT teT out i g = Inr g'"
    and d: "distinct (station_addrs out i)"
    and sub: "set (station_addrs out i) \<subseteq> {..<length g}"
    and ne: "spar ! i \<noteq> te ! i"
  shows "sum_list (g ! (cs_t (u_upperCSOut out ! i) ! (spar ! i))) \<noteq> 0"
    and "sum_list (g ! (cs_t (u_upperCSOut out ! i) ! (te ! i))) \<noteq> 0"
    and "g' ! (cs_t (u_upperCSOut out ! i) ! (spar ! i)) =
           map (\<lambda>x. x * (sparT ! i / sum_list (g ! (cs_t (u_upperCSOut out ! i) ! (spar ! i)))))
             (g ! (cs_t (u_upperCSOut out ! i) ! (spar ! i)))"
    and "g' ! (cs_t (u_upperCSOut out ! i) ! (te ! i)) =
           map (\<lambda>x. x * (teT ! i / sum_list (g ! (cs_t (u_upperCSOut out ! i) ! (te ! i)))))
             (g ! (cs_t (u_upperCSOut out ! i) ! (te ! i)))"
    and "\<forall>k<length (cs_t (u_upperCSOut out ! i)). k \<noteq> spar ! i \<longrightarrow> k \<noteq> te ! i
           \<longrightarrow> g' ! (cs_t (u_upperCSOut out ! i) ! k) = g ! (cs_t (u_upperCSOut out ! i) ! k)"
    and "\<forall>a\<in>set (cs_t (u_websCSOut out ! i)). g' ! a = g ! a"
proof -
  let ?U = "cs_t (u_upperCSOut out ! i)" and ?L = "cs_t (u_lowerCSOut out ! i)"
  let ?W = "cs_t (u_websCSOut out ! i)"
  from resize_station_Inr[OF run] obtain a b a' b' where
    r: "spar ! i < length ?U" "te ! i < length ?U" "spar ! i < length ?L" "te ! i < length ?L"
    and ad: "a = ?U ! (spar ! i)" "b = ?U ! (te ! i)" "a' = ?L ! (spar ! i)" "b' = ?L ! (te ! i)"
    and nz: "sum_list (g ! a) \<noteq> 0" "sum_list (g ! b) \<noteq> 0"
    and g': "g' = imul (imul (imul (imul g a (sparT ! i / sum_list (g ! a)))
                                a' (sparT ! i / sum_list (g ! a)))
                          b (teT ! i / sum_list (g ! b)))
                    b' (teT ! i / sum_list (g ! b))"
    by blast
  from d have dU: "distinct ?U" and dL: "distinct ?L" and UL: "set ?U \<inter> set ?L = {}"
    and UW: "set ?U \<inter> set ?W = {}" and LW: "set ?L \<inter> set ?W = {}"
    by (auto simp: station_addrs_def)
  have inU: "a \<in> set ?U" "b \<in> set ?U" and inL: "a' \<in> set ?L" "b' \<in> set ?L"
    using r by (simp_all add: ad)
  have ab: "a \<noteq> b" using dU r ne by (simp add: ad nth_eq_iff_index_eq)
  have cross: "a \<noteq> a'" "a \<noteq> b'" "b \<noteq> a'" "b \<noteq> b'" using inU inL UL by auto
  have lt: "a < length g" "b < length g"
    using inU sub by (auto simp: station_addrs_def)
  show "sum_list (g ! (?U ! (spar ! i))) \<noteq> 0" "sum_list (g ! (?U ! (te ! i))) \<noteq> 0"
    using nz by (simp_all add: ad)
  have "g' ! a = map (\<lambda>x. x * (sparT ! i / sum_list (g ! a))) (g ! a)"
    using ab cross lt by (simp add: g' imul_nth_other imul_nth_same)
  then show "g' ! (?U ! (spar ! i)) =
           map (\<lambda>x. x * (sparT ! i / sum_list (g ! (?U ! (spar ! i))))) (g ! (?U ! (spar ! i)))"
    by (simp add: ad)
  have "g' ! b = map (\<lambda>x. x * (teT ! i / sum_list (g ! b))) (g ! b)"
    using ab cross lt by (simp add: g' imul_nth_other imul_nth_same length_imul)
  then show "g' ! (?U ! (te ! i)) =
           map (\<lambda>x. x * (teT ! i / sum_list (g ! (?U ! (te ! i))))) (g ! (?U ! (te ! i)))"
    by (simp add: ad)
  show "\<forall>k<length ?U. k \<noteq> spar ! i \<longrightarrow> k \<noteq> te ! i \<longrightarrow> g' ! (?U ! k) = g ! (?U ! k)"
  proof (intro allI impI)
    fix k assume k: "k < length ?U" "k \<noteq> spar ! i" "k \<noteq> te ! i"
    with dU r have "?U ! k \<noteq> a" "?U ! k \<noteq> b" by (simp_all add: ad nth_eq_iff_index_eq)
    moreover from k(1) have "?U ! k \<in> set ?U" by simp
    with inL UL have "?U ! k \<noteq> a'" "?U ! k \<noteq> b'" by auto
    ultimately show "g' ! (?U ! k) = g ! (?U ! k)" by (simp add: g' imul_nth_other)
  qed
  show "\<forall>x\<in>set ?W. g' ! x = g ! x"
  proof
    fix x assume "x \<in> set ?W"
    with inU inL UW LW have "x \<noteq> a" "x \<noteq> b" "x \<noteq> a'" "x \<noteq> b'" by auto
    then show "g' ! x = g ! x" by (simp add: g' imul_nth_other)
  qed
qed


lemma resize_run_Inr:
  assumes "ResizeCompositeSection_solve_nonlinear h U L W chord_str_ref spar te chord_str
             sparT teT = Inr (h', out)"
  shows "\<exists>h1 h2.
           for_each (copy_station U L W) [0..<length chord_str_ref]
             (h, \<lparr>u_upperCSOut = [], u_lowerCSOut = [], u_websCSOut = []\<rparr>) = Inr (h1, out)
         \<and> for_each (scale_station chord_str chord_str_ref out) [0..<length chord_str_ref] h1
             = Inr h2
         \<and> for_each (resize_station spar te sparT teT out) [0..<length chord_str_ref] h2
             = Inr h'"
  using assms
  by (auto simp: ResizeCompositeSection_solve_nonlinear_def Let_def and_then_eq_Inr
      split: prod.splits)

lemma copies_inv_disjoint:
  assumes "copies_inv h0 U L W n (h1, out)"
  shows "\<forall>i<n. distinct (station_addrs out i)"
    and "\<forall>i<n. \<forall>j<n. i \<noteq> j \<longrightarrow> set (station_addrs out i) \<inter> set (station_addrs out j) = {}"
    and "\<forall>i<n. set (station_addrs out i) \<subseteq> {length h0..<length h1}"
proof -
  from assms have d: "distinct (concat (map (station_addrs out) [0..<n]))"
    and s: "\<forall>i<n. set (station_addrs out i) \<subseteq> {length h0..<length h1}"
    by (simp_all add: copies_inv_def)
  from distinct_concat_upt[OF d] show "\<forall>i<n. distinct (station_addrs out i)"
    and "\<forall>i<n. \<forall>j<n. i \<noteq> j \<longrightarrow> set (station_addrs out i) \<inter> set (station_addrs out j) = {}"
    by simp_all
  from s show "\<forall>i<n. set (station_addrs out i) \<subseteq> {length h0..<length h1}" .
qed

lemma resize_run_station:
  assumes run: "ResizeCompositeSection_solve_nonlinear h U L W chord_str_ref spar te chord_str
             sparT teT = Inr (h', out)"
    and wf: "sections_in_heap h U" "sections_in_heap h L" "sections_in_heap h W"
    and i: "i < length chord_str_ref"
  shows "\<exists>h1 h2 g g'.
           copies_inv h U L W (length chord_str_ref) (h1, out)
         \<and> length h2 = length h1 \<and> length h' = length h1
         \<and> i < length chord_str \<and> chord_str_ref ! i \<noteq> 0
         \<and> (\<forall>a\<in>set (station_addrs out i).
               h2 ! a = map (\<lambda>x. x * (chord_str ! i / chord_str_ref ! i)) (h1 ! a))
         \<and> resize_station spar te sparT teT out i g = Inr g' \<and> length g = length h1
         \<and> (\<forall>a\<in>set (station_addrs out i). g ! a = h2 ! a \<and> h' ! a = g' ! a)"
proof -
  let ?n = "length chord_str_ref"
  let ?A = "\<lambda>x. set (station_addrs out x)"
  from resize_run_Inr[OF run] obtain h1 h2 where
    l1: "for_each (copy_station U L W) [0..<?n]
             (h, \<lparr>u_upperCSOut = [], u_lowerCSOut = [], u_websCSOut = []\<rparr>) = Inr (h1, out)"
    and l2: "for_each (scale_station chord_str chord_str_ref out) [0..<?n] h1 = Inr h2"
    and l3: "for_each (resize_station spar te sparT teT out) [0..<?n] h2 = Inr h'"
    by blast
  have inv: "copies_inv h U L W ?n (h1, out)" by (rule copy_loop_inv[OF l1 wf])
  note dj = copies_inv_disjoint[OF inv]
  have disj: "?A x \<inter> ?A i = {}" if "x < ?n" "x \<noteq> i" for x
    using dj(2) that i by simp
  have "\<exists>g1 g2. scale_station chord_str chord_str_ref out i g1 = Inr g2
           \<and> length g1 = length h1 \<and> length g2 = length h1
           \<and> length h2 = length h1 \<and> (\<forall>a\<in>?A i. g1 ! a = h1 ! a \<and> h2 ! a = g2 ! a)"
  proof (rule for_each_station_effect[where A = ?A, OF l2 i])
    fix x g g' assume "scale_station chord_str chord_str_ref out x g = Inr g'"
    from scale_station_effect(1,2)[OF this]
    show "length g' = length g \<and> (\<forall>a. a \<notin> ?A x \<longrightarrow> g' ! a = g ! a)" by simp
  qed (rule disj)
  then obtain g1 g2 where sc: "scale_station chord_str chord_str_ref out i g1 = Inr g2"
    and sl: "length g1 = length h1" "length h2 = length h1"
    and se: "\<forall>a\<in>?A i. g1 ! a = h1 ! a \<and> h2 ! a = g2 ! a" by blast
  from dj(3) i sl(1) have sub1: "?A i \<subseteq> {..<length g1}" by fastforce
  from dj(1) i have di: "distinct (station_addrs out i)" by simp
  from scale_station_effect(3)[OF sc di sub1] se
  have scaled: "\<forall>a\<in>?A i. h2 ! a = map (\<lambda>x. x * (chord_str ! i / chord_str_ref ! i)) (h1 ! a)"
    by simp
  from scale_station_Inr[OF sc] have ci: "i < length chord_str" "chord_str_ref ! i \<noteq> 0"
    by simp_all
  have "\<exists>g1 g2. resize_station spar te sparT teT out i g1 = Inr g2
           \<and> length g1 = length h2 \<and> length g2 = length h2
           \<and> length h' = length h2 \<and> (\<forall>a\<in>?A i. g1 ! a = h2 ! a \<and> h' ! a = g2 ! a)"
  proof (rule for_each_station_effect[where A = ?A, OF l3 i])
    fix x g g' assume "resize_station spar te sparT teT out x g = Inr g'"
    from resize_station_frame[OF this]
    show "length g' = length g \<and> (\<forall>a. a \<notin> ?A x \<longrightarrow> g' ! a = g ! a)" by simp
  qed (rule disj)
  then obtain g g' where rs: "resize_station spar te sparT teT out i g = Inr g'"
    and rl: "length g = length h2" "length h' = length h2"
    and re: "\<forall>a\<in>?A i. g ! a = h2 ! a \<and> h' ! a = g' ! a" by blast
  from inv sl rl ci scaled rs re show ?thesis by auto
qed


lemma map_scale_twice:
  assumes "f \<noteq> 0" "S \<noteq> 0"
  shows "map (\<lambda>x. x * (T / (S * f))) (map (\<lambda>x. x * f) xs) = map (\<lambda>x. x * (T / S)) (xs::real list)"
  using assms by simp




lemma imul_shape: "length (imul h a c ! x) = length (h ! x)"
  by (cases "a < length h") (simp_all add: imul_def nth_list_update list_update_beyond)

lemma fold_imul_shape: "length (fold (\<lambda>a h. imul h a c) as h ! x) = length (h ! x)"
  by (induction as arbitrary: h) (simp_all add: imul_shape)

lemma scale_station_shape:
  assumes "scale_station chord_str chord_str_ref out i g = Inr g'"
  shows "\<forall>x. length (g' ! x) = length (g ! x)"
  using scale_station_Inr[OF assms] by (simp add: fold_imul_shape)

lemma resize_station_shape:
  assumes "resize_station spar te sparT teT out i g = Inr g'"
  shows "\<forall>x. length (g' ! x) = length (g ! x)"
  using resize_station_Inr[OF assms] by (auto simp: imul_shape)

lemma for_each_shape:
  assumes "for_each body xs h = Inr h'"
    and "\<And>x g g'. x \<in> set xs \<Longrightarrow> body x g = Inr g' \<Longrightarrow> \<forall>a. length (g' ! a) = length (g ! a)"
  shows "\<forall>a. length (h' ! a) = length ((h::heap) ! a)"
  using assms
proof (induction xs arbitrary: h)
  case Nil
  then show ?case by simp
next
  case (Cons x xs)
  from Cons.prems(1) obtain g where g: "body x h = Inr g" and rest: "for_each body xs g = Inr h'"
    by (auto simp: and_then_eq_Inr)
  from Cons.prems(2)[OF _ g] have st: "\<forall>a. length (g ! a) = length (h ! a)" by simp
  have "\<forall>a. length (h' ! a) = length (g ! a)"
    by (rule Cons.IH[OF rest]) (use Cons.prems(2) in auto)
  with st show ?case by simp
qed

text \<open>
  Runs that raise. The exception carries the heap at the time it is raised; the arrays
  written before it are copies, so the arrays of the heap before the call are as they were.
\<close>

lemma raised_in_eq_Inl: "raised_in h m = Inl (e, g) \<longleftrightarrow> m = Inl e \<and> g = h"
  by (cases m) (auto simp: raised_in_def)

lemma and_then_eq_Inl:
  "and_then m f = Inl e \<longleftrightarrow> m = Inl e \<or> (\<exists>v. m = Inr v \<and> f v = Inl e)"
  by (cases m) simp_all

lemma for_each_upt_Inl:
  assumes "for_each body [0..<n] s = Inl e"
  shows "\<exists>m<n. \<exists>s1. for_each body [0..<m] s = Inr s1 \<and> body m s1 = Inl e"
  using assms
proof (induction n)
  case 0
  then show ?case by simp
next
  case (Suc n)
  from Suc.prems consider "for_each body [0..<n] s = Inl e"
    | s1 where "for_each body [0..<n] s = Inr s1" "body n s1 = Inl e"
    by (auto simp: for_each_append and_then_eq_Inl)
  then show ?case
  proof cases
    case 1
    from Suc.IH[OF this] show ?thesis using less_Suc_eq by blast
  next
    case 2
    then show ?thesis by blast
  qed
qed

lemma copy_station_Inl:
  assumes "copy_station U L W m (h, out) = Inl (e, g)"
  shows "length h \<le> length g \<and> (\<forall>a<length h. g ! a = h ! a)"
  using assms
  by (auto simp: copy_station_def Let_def and_then_eq_Inl raised_in_eq_Inl raised_in_eq_Inr
      mycopy_def nth_append split: prod.splits)

lemma scale_station_Inl:
  assumes "scale_station chord_str chord_str_ref out i g = Inl (e, g')"
  shows "g' = g"
  using assms
  by (auto simp: scale_station_def Let_def and_then_eq_Inl raised_in_eq_Inl raised_in_eq_Inr)

lemma imul_nth_notin: "k < length as \<Longrightarrow> x \<notin> set as \<Longrightarrow> imul g (as ! k) c ! x = g ! x"
proof -
  assume "k < length as" "x \<notin> set as"
  then have "x \<noteq> as ! k" using nth_mem[of k as] by blast
  then show ?thesis by (rule imul_nth_other)
qed

lemma resize_station_Inl:
  assumes "resize_station spar te sparT teT out i g = Inl (e, g')"
  shows "length g' = length g \<and> (\<forall>x. x \<notin> set (station_addrs out i) \<longrightarrow> g' ! x = g ! x)"
  using assms
  by (auto simp: resize_station_def Let_def and_then_eq_Inl raised_in_eq_Inl raised_in_eq_Inr
      getitem_eq_Inr length_imul imul_nth_notin station_addrs_def)


lemma for_each_old_arrays:
  assumes run: "for_each body [0..<m] h1 = Inr g1" and m: "m \<le> n"
    and frame: "\<And>x g g'. x < n \<Longrightarrow> body x g = Inr g'
           \<Longrightarrow> length g' = length g \<and> (\<forall>a. a \<notin> A x \<longrightarrow> g' ! a = g ! a)"
    and fresh: "\<And>x. x < n \<Longrightarrow> A x \<subseteq> {k..}"
  shows "length g1 = length (h1::heap) \<and> (\<forall>a<k. g1 ! a = h1 ! a)"
proof -
  have "length g1 = length h1 \<and> (\<forall>a. (\<forall>x\<in>set [0..<m]. a \<notin> A x) \<longrightarrow> g1 ! a = h1 ! a)"
  proof (rule for_each_frame[OF run])
    fix x g g' assume "x \<in> set [0..<m]" "body x g = Inr g'"
    with m have "x < n" by simp
    from frame[OF this \<open>body x g = Inr g'\<close>]
    show "length g' = length g \<and> (\<forall>a. a \<notin> A x \<longrightarrow> g' ! a = g ! a)" .
  qed
  moreover have "\<forall>x\<in>set [0..<m]. a \<notin> A x" if "a < k" for a
  proof
    fix x assume "x \<in> set [0..<m]"
    with m have "x < n" by simp
    from fresh[OF this] that show "a \<notin> A x" by auto
  qed
  ultimately show ?thesis by blast
qed

lemma resize_run_Inl:
  assumes "ResizeCompositeSection_solve_nonlinear h U L W chord_str_ref spar te chord_str
             sparT teT = Inl (e, g)"
  shows "for_each (copy_station U L W) [0..<length chord_str_ref]
             (h, \<lparr>u_upperCSOut = [], u_lowerCSOut = [], u_websCSOut = []\<rparr>) = Inl (e, g)
       \<or> (\<exists>h1 out.
             for_each (copy_station U L W) [0..<length chord_str_ref]
               (h, \<lparr>u_upperCSOut = [], u_lowerCSOut = [], u_websCSOut = []\<rparr>) = Inr (h1, out)
           \<and> (for_each (scale_station chord_str chord_str_ref out) [0..<length chord_str_ref] h1
                 = Inl (e, g)
              \<or> (\<exists>h2. for_each (scale_station chord_str chord_str_ref out)
                          [0..<length chord_str_ref] h1 = Inr h2
                     \<and> for_each (resize_station spar te sparT teT out)
                          [0..<length chord_str_ref] h2 = Inl (e, g))))"
  using assms
  by (auto simp: ResizeCompositeSection_solve_nonlinear_def Let_def and_then_eq_Inl
      split: prod.splits)

lemma resize_frame_raised:
  assumes run: "ResizeCompositeSection_solve_nonlinear h U L W chord_str_ref spar te chord_str
             sparT teT = Inl (e, g)"
    and wf: "sections_in_heap h U" "sections_in_heap h L" "sections_in_heap h W"
  shows "length h \<le> length g \<and> (\<forall>a<length h. g ! a = h ! a)"
proof -
  let ?n = "length chord_str_ref"
  let ?s0 = "(h, \<lparr>u_upperCSOut = [], u_lowerCSOut = [], u_websCSOut = []\<rparr>)"
  from resize_run_Inl[OF run] consider
    (copy) "for_each (copy_station U L W) [0..<?n] ?s0 = Inl (e, g)"
  | (scale) h1 out where "for_each (copy_station U L W) [0..<?n] ?s0 = Inr (h1, out)"
      "for_each (scale_station chord_str chord_str_ref out) [0..<?n] h1 = Inl (e, g)"
  | (resize) h1 out h2 where "for_each (copy_station U L W) [0..<?n] ?s0 = Inr (h1, out)"
      "for_each (scale_station chord_str chord_str_ref out) [0..<?n] h1 = Inr h2"
      "for_each (resize_station spar te sparT teT out) [0..<?n] h2 = Inl (e, g)"
    by blast
  then show ?thesis
  proof cases
    case copy
    from for_each_upt_Inl[OF copy] obtain m s1 where
      pre: "for_each (copy_station U L W) [0..<m] ?s0 = Inr s1"
      and fail: "copy_station U L W m s1 = Inl (e, g)" by blast
    obtain h1 out1 where s1: "s1 = (h1, out1)" by (cases s1)
    from copy_loop_inv[OF pre wf] have "length h \<le> length h1" "\<forall>a<length h. h1 ! a = h ! a"
      by (simp_all add: copies_inv_def s1)
    with copy_station_Inl[OF fail[unfolded s1]] show ?thesis by auto
  next
    case scale
    have inv: "copies_inv h U L W ?n (h1, out)" by (rule copy_loop_inv[OF scale(1) wf])
    note dj = copies_inv_disjoint[OF inv]
    from inv have ext: "length h \<le> length h1" "\<forall>a<length h. h1 ! a = h ! a"
      by (simp_all add: copies_inv_def)
    from for_each_upt_Inl[OF scale(2)] obtain m g1 where m: "m < ?n"
      and pre: "for_each (scale_station chord_str chord_str_ref out) [0..<m] h1 = Inr g1"
      and fail: "scale_station chord_str chord_str_ref out m g1 = Inl (e, g)" by blast
    have "length g1 = length h1 \<and> (\<forall>a<length h. g1 ! a = h1 ! a)"
    proof (rule for_each_old_arrays[where A = "\<lambda>x. set (station_addrs out x)" and n = ?n, OF pre])
      show "m \<le> ?n" using m by simp
    next
      fix x g g' assume "scale_station chord_str chord_str_ref out x g = Inr g'"
      from scale_station_effect(1,2)[OF this]
      show "length g' = length g \<and> (\<forall>a. a \<notin> set (station_addrs out x) \<longrightarrow> g' ! a = g ! a)"
        by simp
    next
      fix x assume "x < ?n"
      with dj(3) show "set (station_addrs out x) \<subseteq> {length h..}" by fastforce
    qed
    with ext scale_station_Inl[OF fail] show ?thesis by simp
  next
    case resize
    have inv: "copies_inv h U L W ?n (h1, out)" by (rule copy_loop_inv[OF resize(1) wf])
    note dj = copies_inv_disjoint[OF inv]
    from inv have ext: "length h \<le> length h1" "\<forall>a<length h. h1 ! a = h ! a"
      by (simp_all add: copies_inv_def)
    have fresh: "set (station_addrs out x) \<subseteq> {length h..}" if "x < ?n" for x
      using dj(3) that by fastforce
    have f2: "length h2 = length h1 \<and> (\<forall>a<length h. h2 ! a = h1 ! a)"
    proof (rule for_each_old_arrays[where A = "\<lambda>x. set (station_addrs out x)" and n = ?n,
          OF resize(2)])
      fix x g g' assume "scale_station chord_str chord_str_ref out x g = Inr g'"
      from scale_station_effect(1,2)[OF this]
      show "length g' = length g \<and> (\<forall>a. a \<notin> set (station_addrs out x) \<longrightarrow> g' ! a = g ! a)"
        by simp
    qed (simp_all add: fresh)
    from for_each_upt_Inl[OF resize(3)] obtain m g1 where m: "m < ?n"
      and pre: "for_each (resize_station spar te sparT teT out) [0..<m] h2 = Inr g1"
      and fail: "resize_station spar te sparT teT out m g1 = Inl (e, g)" by blast
    have f3: "length g1 = length h2 \<and> (\<forall>a<length h. g1 ! a = h2 ! a)"
    proof (rule for_each_old_arrays[where A = "\<lambda>x. set (station_addrs out x)" and n = ?n, OF pre])
      show "m \<le> ?n" using m by simp
    next
      fix x g g' assume "resize_station spar te sparT teT out x g = Inr g'"
      from resize_station_frame[OF this]
      show "length g' = length g \<and> (\<forall>a. a \<notin> set (station_addrs out x) \<longrightarrow> g' ! a = g ! a)"
        by simp
    qed (simp add: fresh)
    from resize_station_Inl[OF fail] have last: "length g = length g1"
      "\<forall>x. x \<notin> set (station_addrs out m) \<longrightarrow> g ! x = g1 ! x" by simp_all
    have "g ! a = h ! a" if "a < length h" for a
    proof -
      from fresh[OF m] that have "a \<notin> set (station_addrs out m)" by auto
      with last(2) f3 f2 ext(2) that show ?thesis by simp
    qed
    with last(1) f3 f2 ext(1) show ?thesis by simp
  qed
qed



end
